theory Spec2Isabelle
  imports Main
begin

section \<open>Data model of the image-topic handler (src/parse.py)\<close>

text \<open>
  A decoded raster frame: \<open>sample_bgr.shape[:2]\<close> is \<open>(height, width)\<close>, the pixel
  buffer is kept as a list of channel values.
\<close>

record frame =
  height :: nat
  width :: nat
  pixels :: "nat list"

text \<open>
  An image message as the record feed delivers it. Decoding
  (\<open>bridge.imgmsg_to_cv2\<close> followed by \<open>cv2.cvtColor\<close>) is done by external
  libraries: a message either decodes to a frame or the decoder raises.
\<close>

datatype image_msg = Decodable frame | Undecodable

datatype error = DecodeError | RuntimeError | TypeError | KeyError

text \<open>
  The \<open>cv2.VideoWriter\<close> object: the geometry \<open>(w, h)\<close> it was constructed with, the
  answer of \<open>isOpened()\<close>, the frames passed to \<open>write\<close> in call order, and the number
  of \<open>release\<close> calls.
\<close>

record video_writer =
  frame_size :: "nat \<times> nat"
  opened :: bool
  write_calls :: "frame list"
  releases :: nat

text \<open>
  One data row of the sidecar CSV, in column order. The source timestamp of a repeat is
  the field \<open>last_source_ts_ns\<close> as it stands, which Python allows to be \<open>None\<close>;
  \<open>is_repeat\<close> is written as 0 or 1.
\<close>

record sidecar_row =
  frame_index :: int
  video_timestamp_ns :: int
  source_timestamp_ns :: "int option"
  is_repeat :: nat

text \<open>
  The fields of \<open>ImageTopicHandler\<close>. \<open>csv_rows\<close> are the data rows written through
  \<open>csv_w\<close> after the header, \<open>csv_closes\<close> counts the calls of \<open>csv_f.close()\<close>.
  \<open>period_ns\<close> is computed by the constructor in floating point
  (\<open>int(round(1e9 / target_fps))\<close>); the model takes its value as given.
\<close>

record handler =
  period_ns :: int
  writer :: "video_writer option"
  frame_idx :: int
  next_target_ts_ns :: "int option"
  last_frame_bgr :: "frame option"
  video_start_ts :: "int option"
  first_img_seen :: bool
  last_source_ts_ns :: "int option"
  csv_rows :: "sidecar_row list"
  csv_closes :: nat

definition new_handler :: "int \<Rightarrow> handler" where
  "new_handler p =
     \<lparr>period_ns = p, writer = None, frame_idx = 0, next_target_ts_ns = None,
      last_frame_bgr = None, video_start_ts = None, first_img_seen = False,
      last_source_ts_ns = None, csv_rows = [], csv_closes = 0\<rparr>"

section \<open>Operations of the handler\<close>

text \<open>
  \<open>init_writer_if_needed\<close>: the writer is created once, with the geometry of the
  sample frame. \<open>ok\<close> is what \<open>isOpened()\<close> answers for a freshly constructed writer
  (whether the FFV1 codec is available). The field is assigned before the check, so
  a failed open leaves a writer object behind.
\<close>

definition init_writer_if_needed :: "bool \<Rightarrow> handler \<Rightarrow> frame \<Rightarrow> error \<times> handler + handler" where
  "init_writer_if_needed ok h sample_bgr =
     (if writer h = None then
        (let h' = h\<lparr>writer := Some \<lparr>frame_size = (width sample_bgr, height sample_bgr),
                                    opened = ok, write_calls = [], releases = 0\<rparr>\<rparr>
         in if \<not> ok then Inl (RuntimeError, h') else Inr h')
      else Inr h)"

text \<open>
  \<open>self.writer.write(f)\<close>: the call is recorded; no dimension is compared. It is
  only called after \<open>init_writer_if_needed\<close> has returned, when there is a writer.
\<close>

definition writer_write :: "handler \<Rightarrow> frame \<Rightarrow> handler" where
  "writer_write h f =
     h\<lparr>writer := map_option (\<lambda>w. w\<lparr>write_calls := write_calls w @ [f]\<rparr>) (writer h)\<rparr>"

text \<open>
  The body of the \<open>while\<close> loop of \<open>emit_frozen_frames_until\<close>, entered with the
  target \<open>nxt\<close> and the held frame \<open>lf\<close> that the loop condition has found. Subtracting
  \<open>video_start_ts\<close> from the target raises \<open>TypeError\<close> when it is still \<open>None\<close>, after
  the frame went to the writer.
\<close>

definition emit_frozen_body :: "bool \<Rightarrow> handler \<Rightarrow> int \<Rightarrow> frame \<Rightarrow> error \<times> handler + handler" where
  "emit_frozen_body ok h nxt lf =
     (case init_writer_if_needed ok h lf of
        Inl e \<Rightarrow> Inl e
      | Inr h1 \<Rightarrow>
          (let h2 = writer_write h1 lf in
           case video_start_ts h2 of
             None \<Rightarrow> Inl (TypeError, h2)
           | Some start \<Rightarrow>
               Inr (h2\<lparr>csv_rows := csv_rows h2 @
                          [\<lparr>frame_index = frame_idx h2,
                            video_timestamp_ns = nxt - start,
                            source_timestamp_ns = last_source_ts_ns h2,
                            is_repeat = 1\<rparr>],
                       frame_idx := frame_idx h2 + 1,
                       next_target_ts_ns := Some (nxt + period_ns h2)\<rparr>)))"

text \<open>
  The loop itself, its condition tested conjunct by conjunct in the order of the
  source. It need not terminate (a period that is not positive never reaches the image
  timestamp), so not returning is the value \<open>None\<close>.
\<close>

partial_function (option) emit_frozen_loop ::
  "bool \<Rightarrow> int \<Rightarrow> handler \<Rightarrow> int \<Rightarrow> (error \<times> handler + handler \<times> int) option" where
  "emit_frozen_loop ok t_img_ns h emitted =
     (case next_target_ts_ns h of
        None \<Rightarrow> Some (Inr (h, emitted))
      | Some nxt \<Rightarrow>
          if nxt < t_img_ns then
            (case last_frame_bgr h of
               None \<Rightarrow> Some (Inr (h, emitted))
             | Some lf \<Rightarrow>
                 (case emit_frozen_body ok h nxt lf of
                    Inl e \<Rightarrow> Some (Inl e)
                  | Inr h' \<Rightarrow> emit_frozen_loop ok t_img_ns h' (emitted + 1)))
          else Some (Inr (h, emitted)))"

declare emit_frozen_loop.simps [code]

definition emit_frozen_frames_until ::
  "bool \<Rightarrow> handler \<Rightarrow> int \<Rightarrow> (error \<times> handler + handler \<times> int) option" where
  "emit_frozen_frames_until ok h t_img_ns = emit_frozen_loop ok t_img_ns h 0"

definition decode :: "image_msg \<Rightarrow> frame option" where
  "decode m = (case m of Decodable f \<Rightarrow> Some f | Undecodable \<Rightarrow> None)"

text \<open>The first-frame initialisation at the head of \<open>handle_msg\<close>.\<close>

definition mark_first :: "handler \<Rightarrow> int \<Rightarrow> handler" where
  "mark_first h t_ns =
     (if \<not> first_img_seen h then
        h\<lparr>video_start_ts := Some t_ns, next_target_ts_ns := Some t_ns, first_img_seen := True\<rparr>
      else h)"

text \<open>
  The real-frame part of \<open>handle_msg\<close>, after the gap filling: writer, sidecar row,
  index, next target, last frame, in the order of the source.
\<close>

definition emit_real :: "bool \<Rightarrow> handler \<Rightarrow> frame \<Rightarrow> int \<Rightarrow> error \<times> handler + handler" where
  "emit_real ok h img_bgr t_ns =
     (case init_writer_if_needed ok h img_bgr of
        Inl e \<Rightarrow> Inl e
      | Inr h1 \<Rightarrow>
          (let h2 = writer_write h1 img_bgr in
           case video_start_ts h2 of
             None \<Rightarrow> Inl (TypeError, h2)
           | Some start \<Rightarrow>
               (let h3 = h2\<lparr>csv_rows := csv_rows h2 @
                               [\<lparr>frame_index = frame_idx h2,
                                 video_timestamp_ns = t_ns - start,
                                 source_timestamp_ns = Some t_ns,
                                 is_repeat = 0\<rparr>],
                            frame_idx := frame_idx h2 + 1\<rparr>
                in case next_target_ts_ns h3 of
                     None \<Rightarrow> Inl (TypeError, h3)
                   | Some nxt \<Rightarrow>
                       Inr (h3\<lparr>next_target_ts_ns := Some (nxt + period_ns h3),
                               last_frame_bgr := Some img_bgr,
                               last_source_ts_ns := Some t_ns\<rparr>))))"

definition handle_msg ::
  "bool \<Rightarrow> handler \<Rightarrow> image_msg \<Rightarrow> int \<Rightarrow> (error \<times> handler + handler) option" where
  "handle_msg ok h msg t_ns =
     (case decode msg of
        None \<Rightarrow> Some (Inl (DecodeError, h))
      | Some img_bgr \<Rightarrow>
          (case emit_frozen_frames_until ok (mark_first h t_ns) t_ns of
             None \<Rightarrow> None
           | Some (Inl e) \<Rightarrow> Some (Inl e)
           | Some (Inr (h', emitted)) \<Rightarrow> Some (emit_real ok h' img_bgr t_ns)))"

text \<open>\<open>close\<close>: release the writer if there is one, then close the sidecar file.\<close>

definition close :: "handler \<Rightarrow> handler" where
  "close h =
     h\<lparr>writer := map_option (\<lambda>w. w\<lparr>releases := releases w + 1\<rparr>) (writer h),
       csv_closes := csv_closes h + 1\<rparr>"

section \<open>Feeding a handler, and \<open>process_bag\<close>\<close>

text \<open>
  Successive \<open>handle_msg\<close> calls on one handler, as the read loop of \<open>process_bag\<close>
  makes them for one image topic: the first exception ends the run.
\<close>

fun handle_msgs ::
  "bool \<Rightarrow> handler \<Rightarrow> (image_msg \<times> int) list \<Rightarrow> (error \<times> handler + handler) option" where
  "handle_msgs ok h [] = Some (Inr h)"
| "handle_msgs ok h ((msg, t_ns) # rest) =
     (case handle_msg ok h msg t_ns of
        None \<Rightarrow> None
      | Some (Inl e) \<Rightarrow> Some (Inl e)
      | Some (Inr h') \<Rightarrow> handle_msgs ok h' rest)"

text \<open>The handler state a run ends in, whether it returned or raised.\<close>

definition final_state :: "error \<times> handler + handler \<Rightarrow> handler" where
  "final_state r = (case r of Inl (e, h) \<Rightarrow> h | Inr h \<Rightarrow> h)"

text \<open>
  The constants of the module. \<open>TARGET_PERIOD_NS\<close> is the period the constructor
  computes from \<open>TARGET_FPS = 40\<close>.
\<close>

definition IMAGE :: string where
  "IMAGE = ''sensor_msgs/msg/Image''"

definition DIAGNOSTICS :: string where
  "DIAGNOSTICS = ''diagnostic_msgs/msg/DiagnosticArray''"

definition PROCESS_IMAGES :: bool where
  "PROCESS_IMAGES = True"

definition TARGET_PERIOD_NS :: int where
  "TARGET_PERIOD_NS = 25000000"

text \<open>
  A deserialised message of the record feed. Only image messages have content in this
  model; the decoder raises on anything else.
\<close>

datatype payload = ImagePayload image_msg | OtherPayload

definition as_image :: "payload \<Rightarrow> image_msg" where
  "as_image m = (case m of ImagePayload i \<Rightarrow> i | OtherPayload \<Rightarrow> Undecodable)"

text \<open>
  The handlers that \<open>process_bag\<close> keeps per topic. The two CSV handlers write to files
  of their own, which are outside this model, so they carry no state here.
\<close>

datatype topic_handler =
  ImageTopicHandler handler | DiagnosticArrayHandler | TopicHandlerCsv

type_synonym handlers = "string \<rightharpoonup> topic_handler"

text \<open>The handler created for a topic of type \<open>ty\<close> when its first message arrives.\<close>

definition make_handler :: "string \<Rightarrow> topic_handler" where
  "make_handler ty =
     (if PROCESS_IMAGES \<and> ty = IMAGE then ImageTopicHandler (new_handler TARGET_PERIOD_NS)
      else if ty = DIAGNOSTICS then DiagnosticArrayHandler
      else TopicHandlerCsv)"

text \<open>
  The read loop of \<open>process_bag\<close> over the records \<open>(topic, msg, t)\<close> of the feed.
  \<open>topics\<close> is the dictionary from topic name to message type read from the metadata.
  Nothing catches an exception of \<open>handle_msg\<close>: it leaves the loop with the handlers
  as they are at that moment.
\<close>

fun read_records ::
  "bool \<Rightarrow> (string \<rightharpoonup> string) \<Rightarrow> handlers \<Rightarrow> (string \<times> payload \<times> int) list \<Rightarrow>
     (error \<times> handlers + handlers) option" where
  "read_records ok topics hs [] = Some (Inr hs)"
| "read_records ok topics hs ((topic, msg, t) # rest) =
     (case topics topic of
        None \<Rightarrow> Some (Inl (KeyError, hs))
      | Some ty \<Rightarrow>
          if ty = IMAGE \<and> \<not> PROCESS_IMAGES then read_records ok topics hs rest
          else
            (let hdl = (case hs topic of None \<Rightarrow> make_handler ty | Some x \<Rightarrow> x);
                 hs1 = hs(topic \<mapsto> hdl)
             in case hdl of
                  ImageTopicHandler h \<Rightarrow>
                    (case handle_msg ok h (as_image msg) t of
                       None \<Rightarrow> None
                     | Some (Inl (e, h')) \<Rightarrow> Some (Inl (e, hs1(topic \<mapsto> ImageTopicHandler h')))
                     | Some (Inr h') \<Rightarrow>
                         read_records ok topics (hs1(topic \<mapsto> ImageTopicHandler h')) rest)
                | _ \<Rightarrow> read_records ok topics hs1 rest))"

text \<open>The closing loop after the read loop: every image handler is closed.\<close>

definition close_handler :: "topic_handler \<Rightarrow> topic_handler" where
  "close_handler th = (case th of ImageTopicHandler h \<Rightarrow> ImageTopicHandler (close h) | x \<Rightarrow> x)"

definition process_bag ::
  "bool \<Rightarrow> (string \<rightharpoonup> string) \<Rightarrow> (string \<times> payload \<times> int) list \<Rightarrow>
     (error \<times> handlers + handlers) option" where
  "process_bag ok topics feed =
     (case read_records ok topics Map.empty feed of
        None \<Rightarrow> None
      | Some (Inl e) \<Rightarrow> Some (Inl e)
      | Some (Inr hs) \<Rightarrow> Some (Inr (\<lambda>k. map_option close_handler (hs k))))"


section \<open>Closed forms and invariants used in the proofs\<close>

text \<open>
  The \<open>i\<close>-th repeat row of a gap-filling loop entered in state \<open>h\<close> with target
  \<open>nxt\<close> and stream start \<open>start\<close>.
\<close>

definition repeat_row :: "handler \<Rightarrow> int \<Rightarrow> int \<Rightarrow> nat \<Rightarrow> sidecar_row" where
  "repeat_row h nxt start i =
     \<lparr>frame_index = frame_idx h + int i,
      video_timestamp_ns = nxt + int i * period_ns h - start,
      source_timestamp_ns = last_source_ts_ns h,
      is_repeat = 1\<rparr>"

text \<open>
  The handler after \<open>k\<close> passes through the body of the loop, which held the frame
  \<open>lf\<close> on the writer \<open>w\<close>.
\<close>

definition held :: "handler \<Rightarrow> video_writer \<Rightarrow> frame \<Rightarrow> int \<Rightarrow> int \<Rightarrow> nat \<Rightarrow> handler" where
  "held h w lf nxt start k =
     h\<lparr>writer := Some (w\<lparr>write_calls := write_calls w @ replicate k lf\<rparr>),
       csv_rows := csv_rows h @ map (repeat_row h nxt start) [0..<k],
       frame_idx := frame_idx h + int k,
       next_target_ts_ns := Some (nxt + int k * period_ns h)\<rparr>"

text \<open>
  A handler with a writer, a held frame, a target and a stream start: the state in
  which the loop body and the real-frame part cannot raise.
\<close>

definition running :: "handler \<Rightarrow> video_writer \<Rightarrow> frame \<Rightarrow> int \<Rightarrow> int \<Rightarrow> bool" where
  "running h w lf nxt start \<longleftrightarrow>
     writer h = Some w \<and> last_frame_bgr h = Some lf \<and>
     next_target_ts_ns h = Some nxt \<and> video_start_ts h = Some start"

text \<open>
  The handler after the real-frame part of \<open>handle_msg\<close> has placed the frame \<open>f\<close> of
  timestamp \<open>t\<close>.
\<close>

definition placed :: "handler \<Rightarrow> video_writer \<Rightarrow> int \<Rightarrow> int \<Rightarrow> frame \<Rightarrow> int \<Rightarrow> handler" where
  "placed h w nxt start f t =
     h\<lparr>writer := Some (w\<lparr>write_calls := write_calls w @ [f]\<rparr>),
       csv_rows := csv_rows h @
          [\<lparr>frame_index = frame_idx h, video_timestamp_ns = t - start,
            source_timestamp_ns = Some t, is_repeat = 0\<rparr>],
       frame_idx := frame_idx h + 1,
       next_target_ts_ns := Some (nxt + period_ns h),
       last_frame_bgr := Some f,
       last_source_ts_ns := Some t\<rparr>"

text \<open>
  Rows numbered consecutively from \<open>n\<close>.
\<close>

fun indexed_from :: "int \<Rightarrow> sidecar_row list \<Rightarrow> bool" where
  "indexed_from n [] = True"
| "indexed_from n (r # rs) = (frame_index r = n \<and> indexed_from (n + 1) rs)"

text \<open>
  What the code stamps a row with: a repeat with its grid tick, a real row with the
  offset of its source timestamp from the stream start.
\<close>

definition on_grid :: "int \<Rightarrow> int \<Rightarrow> sidecar_row \<Rightarrow> bool" where
  "on_grid p start r =
     (if is_repeat r = 1 then video_timestamp_ns r = frame_index r * p
      else is_repeat r = 0 \<and> source_timestamp_ns r = Some (start + video_timestamp_ns r))"

text \<open>
  The sidecar row of a real frame.
\<close>

definition real_row :: "int \<Rightarrow> int \<Rightarrow> int \<Rightarrow> sidecar_row" where
  "real_row idx start t =
     \<lparr>frame_index = idx, video_timestamp_ns = t - start,
      source_timestamp_ns = Some t, is_repeat = 0\<rparr>"

text \<open>
  The invariant of a handler that has ingested at least one frame, the last one at
  timestamp \<open>t'\<close>: the target is \<open>frame_idx\<close> periods after the stream start and at
  least one period after \<open>t'\<close>, the rows are numbered from 0 and end with the real row
  of the last frame, and the first row is stamped 0.
\<close>

definition live :: "handler \<Rightarrow> video_writer \<Rightarrow> frame \<Rightarrow> int \<Rightarrow> int \<Rightarrow> int \<Rightarrow> bool" where
  "live h w lf nxt start t' \<longleftrightarrow>
     running h w lf nxt start \<and> first_img_seen h \<and> last_source_ts_ns h = Some t' \<and>
     nxt = start + frame_idx h * period_ns h \<and> t' + period_ns h \<le> nxt \<and>
     frame_idx h = int (length (csv_rows h)) \<and> indexed_from 0 (csv_rows h) \<and>
     csv_rows h \<noteq> [] \<and> last (csv_rows h) = real_row (frame_idx h - 1) start t' \<and>
     list_all (on_grid (period_ns h) start) (csv_rows h) \<and>
     video_timestamp_ns (hd (csv_rows h)) = 0"

text \<open>
  The part of the invariant that a new handler has as well.
\<close>

definition tidy :: "handler \<Rightarrow> bool" where
  "tidy h \<longleftrightarrow> frame_idx h = int (length (csv_rows h)) \<and> indexed_from 0 (csv_rows h)"

text \<open>
  The \<open>video_timestamp_ns\<close> column is sorted and bounded by the offset of the last
  source timestamp: this needs the feed in timestamp order.
\<close>

definition ordered :: "handler \<Rightarrow> int \<Rightarrow> int \<Rightarrow> bool" where
  "ordered h start t' \<longleftrightarrow>
     sorted (map video_timestamp_ns (csv_rows h)) \<and>
     list_all (\<lambda>r. video_timestamp_ns r \<le> t' - start) (csv_rows h)"

text \<open>The sidecar rows a run has written when it ends (none if it never ends).\<close>

definition emitted_rows :: "(error \<times> handler + handler) option \<Rightarrow> sidecar_row list" where
  "emitted_rows r = (case r of None \<Rightarrow> [] | Some x \<Rightarrow> csv_rows (final_state x))"

text \<open>A handler whose sidecar file and writer have not been released.\<close>

definition unreleased :: "handler \<Rightarrow> bool" where
  "unreleased h \<longleftrightarrow>
     csv_closes h = 0 \<and> (case writer h of None \<Rightarrow> True | Some w \<Rightarrow> releases w = 0)"

text \<open>No image handler of the dictionary has been closed.\<close>

definition all_unreleased :: "handlers \<Rightarrow> bool" where
  "all_unreleased hs \<longleftrightarrow> (\<forall>k h. hs k = Some (ImageTopicHandler h) \<longrightarrow> unreleased h)"

text \<open>Every handler stored for a topic of the image type is an image handler.\<close>

definition image_typed :: "(string \<rightharpoonup> string) \<Rightarrow> handlers \<Rightarrow> bool" where
  "image_typed topics hs \<longleftrightarrow>
     (\<forall>k th. hs k = Some th \<longrightarrow> topics k = Some IMAGE \<longrightarrow> (\<exists>h. th = ImageTopicHandler h))"

text \<open>The handlers \<open>process_bag\<close> ends with, whether it returned or raised.\<close>

definition final_handlers :: "error \<times> handlers + handlers \<Rightarrow> handlers" where
  "final_handlers r = (case r of Inl x \<Rightarrow> snd x | Inr hs \<Rightarrow> hs)"

text \<open>A bag with one image topic, for the examples.\<close>

definition camera_topics :: "string \<rightharpoonup> string" where
  "camera_topics = [''/camera/image_raw'' \<mapsto> IMAGE]"


section \<open>The gap-filling loop\<close>

text \<open>
  What the loop returns when it returns (by the induction rule of the partial function),
  and that it returns when the period is positive (by induction on the distance from the
  target to the image timestamp).
\<close>

lemma held_0: "running h w lf nxt start \<Longrightarrow> held h w lf nxt start 0 = h"
  by (simp add: held_def running_def)

lemma body_running:
  assumes "running h w lf nxt start"
  shows "emit_frozen_body ok h nxt lf = Inr (held h w lf nxt start 1)"
  using assms
  by (simp add: running_def emit_frozen_body_def init_writer_if_needed_def writer_write_def
      held_def repeat_row_def)

lemma running_held:
  "running h w lf nxt start \<Longrightarrow>
   running (held h w lf nxt start k) (w\<lparr>write_calls := write_calls w @ replicate k lf\<rparr>) lf
     (nxt + int k * period_ns h) start"
  by (simp add: running_def held_def)

lemma held_held:
  "held (held h w lf nxt start (Suc 0)) (w\<lparr>write_calls := write_calls w @ [lf]\<rparr>) lf
      (nxt + period_ns h) start k = held h w lf nxt start (Suc k)"
  by (simp add: held_def repeat_row_def map_upt_Suc replicate_append_same algebra_simps del: upt_Suc)

lemma loop_partial:
  assumes "emit_frozen_loop ok t h e = Some r"
  shows "\<forall>w lf nxt start. running h w lf nxt start \<longrightarrow>
     (\<exists>k. r = Inr (held h w lf nxt start k, e + int k) \<and>
          (\<forall>i<k. nxt + int i * period_ns h < t) \<and> t \<le> nxt + int k * period_ns h)"
  using assms
proof (induction ok t h e r rule: emit_frozen_loop.raw_induct[rotated 1, consumes 1])
  case (1 loop ok t h e r)
  show ?case
  proof (intro allI impI)
    fix w lf nxt start
    assume run: "running h w lf nxt start"
    show "\<exists>k. r = Inr (held h w lf nxt start k, e + int k) \<and>
          (\<forall>i<k. nxt + int i * period_ns h < t) \<and> t \<le> nxt + int k * period_ns h"
    proof (cases "nxt < t")
      case False
      with run 1(2) have "r = Inr (h, e)" by (simp add: running_def)
      with run False show ?thesis
        by (intro exI[of _ 0]) (simp add: held_0)
    next
      case True
      let ?h1 = "held h w lf nxt start 1"
      let ?w1 = "w\<lparr>write_calls := write_calls w @ replicate 1 lf\<rparr>"
      from run True 1(2) have rec: "loop ok t ?h1 (e + 1) = Some r"
        by (simp add: running_def body_running[OF run])
      have run1: "running ?h1 ?w1 lf (nxt + int 1 * period_ns h) start"
        by (rule running_held[OF run])
      have p1: "period_ns ?h1 = period_ns h" by (simp add: held_def)
      from 1(1)[OF rec] run1 obtain k where
        k: "r = Inr (held ?h1 ?w1 lf (nxt + int 1 * period_ns h) start k, e + 1 + int k)"
           "\<forall>i<k. nxt + int 1 * period_ns h + int i * period_ns h < t"
           "t \<le> nxt + int 1 * period_ns h + int k * period_ns h"
        unfolding p1 by blast
      have a: "\<forall>i<Suc k. nxt + int i * period_ns h < t"
      proof (intro allI impI)
        fix i assume "i < Suc k"
        show "nxt + int i * period_ns h < t"
        proof (cases i)
          case 0 with True show ?thesis by simp
        next
          case (Suc j)
          with \<open>i < Suc k\<close> k(2) have "nxt + int 1 * period_ns h + int j * period_ns h < t" by simp
          with Suc show ?thesis by (simp add: algebra_simps)
        qed
      qed
      from k(3) have b: "t \<le> nxt + int (Suc k) * period_ns h" by (simp add: algebra_simps)
      from k(1) have c: "r = Inr (held h w lf nxt start (Suc k), e + int (Suc k))"
        by (simp add: held_held)
      from a b c show ?thesis by blast
    qed
  qed
qed

lemma loop_total:
  assumes "0 < period_ns h" "running h w lf nxt start"
  shows "\<exists>r. emit_frozen_loop ok t h e = Some r"
  using assms
proof (induction "nat (t - nxt)" arbitrary: h w nxt e rule: less_induct)
  case less
  show ?case
  proof (cases "nxt < t")
    case False
    with less(3) show ?thesis
      by (subst emit_frozen_loop.simps) (simp add: running_def)
  next
    case True
    let ?h1 = "held h w lf nxt start 1"
    have run1: "running ?h1 (w\<lparr>write_calls := write_calls w @ replicate 1 lf\<rparr>) lf (nxt + int 1 * period_ns h) start"
      by (rule running_held[OF less(3)])
    have p1: "period_ns ?h1 = period_ns h" by (simp add: held_def)
    have "nat (t - (nxt + int 1 * period_ns h)) < nat (t - nxt)"
      using True less(2) by simp
    from less(1)[OF this _ run1, of "e + 1"] less(2) p1
    obtain r where "emit_frozen_loop ok t ?h1 (e + 1) = Some r" by auto
    with True less(3) show ?thesis
      by (subst emit_frozen_loop.simps) (simp add: running_def body_running[OF less(3)])
  qed
qed

lemma loop_idle:
  "last_frame_bgr h = None \<or> next_target_ts_ns h = None \<Longrightarrow> emit_frozen_loop ok t h e = Some (Inr (h, e))"
  by (subst emit_frozen_loop.simps) (auto split: option.splits)

section \<open>One call of \<open>handle_msg\<close>\<close>

lemma emit_real_placed:
  assumes "writer h = Some w" "next_target_ts_ns h = Some nxt" "video_start_ts h = Some start"
  shows "emit_real ok h f t = Inr (placed h w nxt start f t)"
  using assms
  by (simp add: emit_real_def init_writer_if_needed_def writer_write_def placed_def)

lemma handle_msg_undecodable: "handle_msg ok h Undecodable t = Some (Inl (DecodeError, h))"
  by (simp add: handle_msg_def decode_def)

lemma handle_msg_running:
  assumes run: "running h w lf nxt start" and seen: "first_img_seen h"
    and res: "handle_msg ok h (Decodable f) t = Some r"
  shows "\<exists>k. r = Inr (placed (held h w lf nxt start k)
                        (w\<lparr>write_calls := write_calls w @ replicate k lf\<rparr>)
                        (nxt + int k * period_ns h) start f t) \<and>
             (\<forall>i<k. nxt + int i * period_ns h < t) \<and> t \<le> nxt + int k * period_ns h"
proof -
  from seen have mf: "mark_first h t = h" by (simp add: mark_first_def)
  from res obtain x where x: "emit_frozen_loop ok t h 0 = Some x"
    by (auto simp: handle_msg_def decode_def mf emit_frozen_frames_until_def split: option.splits)
  from loop_partial[OF x] run obtain k where
    k: "x = Inr (held h w lf nxt start k, 0 + int k)"
       "\<forall>i<k. nxt + int i * period_ns h < t" "t \<le> nxt + int k * period_ns h"
    by blast
  have rk: "running (held h w lf nxt start k) (w\<lparr>write_calls := write_calls w @ replicate k lf\<rparr>) lf
     (nxt + int k * period_ns h) start" by (rule running_held[OF run])
  from res x k(1) have "r = emit_real ok (held h w lf nxt start k) f t"
    by (simp add: handle_msg_def decode_def mf emit_frozen_frames_until_def)
  also have "\<dots> = Inr (placed (held h w lf nxt start k)
                        (w\<lparr>write_calls := write_calls w @ replicate k lf\<rparr>)
                        (nxt + int k * period_ns h) start f t)"
    using rk by (intro emit_real_placed) (simp_all add: running_def)
  finally show ?thesis using k(2,3) by blast
qed

lemma handle_msg_running_total:
  assumes run: "running h w lf nxt start" and seen: "first_img_seen h" and pos: "0 < period_ns h"
  shows "\<exists>h'. handle_msg ok h (Decodable f) t = Some (Inr h')"
proof -
  from seen have mf: "mark_first h t = h" by (simp add: mark_first_def)
  from loop_total[OF pos run] obtain x where x: "emit_frozen_loop ok t h 0 = Some x" by blast
  from loop_partial[OF x] run obtain k where
    k: "x = Inr (held h w lf nxt start k, 0 + int k)" by blast
  show ?thesis using x k
    by (simp add: handle_msg_def decode_def mf emit_frozen_frames_until_def emit_real_placed[OF _ _ _]
         running_held[OF run, unfolded running_def] emit_real_def init_writer_if_needed_def writer_write_def held_def
          run[unfolded running_def])
qed

lemma handle_msg_fresh:
  "handle_msg ok (new_handler p) (Decodable f) t =
     Some (if ok then
        Inr \<lparr>period_ns = p,
             writer = Some \<lparr>frame_size = (width f, height f), opened = True,
                            write_calls = [f], releases = 0\<rparr>,
             frame_idx = 1, next_target_ts_ns = Some (t + p), last_frame_bgr = Some f,
             video_start_ts = Some t, first_img_seen = True, last_source_ts_ns = Some t,
             csv_rows = [\<lparr>frame_index = 0, video_timestamp_ns = 0,
                          source_timestamp_ns = Some t, is_repeat = 0\<rparr>],
             csv_closes = 0\<rparr>
      else Inl (RuntimeError, (new_handler p)\<lparr>video_start_ts := Some t, next_target_ts_ns := Some t,
               first_img_seen := True,
               writer := Some \<lparr>frame_size = (width f, height f), opened = False,
                            write_calls = [], releases = 0\<rparr>\<rparr>))"
  by (simp add: handle_msg_def decode_def mark_first_def new_handler_def emit_frozen_frames_until_def
       emit_frozen_loop.simps emit_real_def init_writer_if_needed_def writer_write_def)

section \<open>The invariant is kept by every call\<close>

lemma indexed_from_append:
  "indexed_from n (xs @ ys) \<longleftrightarrow> indexed_from n xs \<and> indexed_from (n + int (length xs)) ys"
  by (induction xs arbitrary: n) (auto simp: algebra_simps)

lemma indexed_from_repeats:
  "indexed_from (frame_idx h + int j) (map (repeat_row h nxt start) [j..<j + k])"
proof (induction k arbitrary: j)
  case 0
  show ?case by simp
next
  case (Suc k)
  have "[j..<j + Suc k] = j # [Suc j..<Suc j + k]" by (simp add: upt_rec)
  moreover have "frame_idx h + int j + 1 = frame_idx h + int (Suc j)" by simp
  ultimately show ?case using Suc[of "Suc j"] by (simp add: repeat_row_def algebra_simps del: upt_Suc)
qed

lemma indexed_from_map:
  "indexed_from n rs \<Longrightarrow> map frame_index rs = map (\<lambda>i. n + int i) [0..<length rs]"
proof (induction rs arbitrary: n)
  case Nil
  show ?case by simp
next
  case (Cons r rs)
  from Cons.prems have "frame_index r = n" "indexed_from (n + 1) rs" by simp_all
  with Cons.IH[of "n + 1"] show ?case
    by (simp add: map_upt_Suc algebra_simps del: upt_Suc)
qed

lemma on_grid_repeats:
  "nxt = start + frame_idx h * period_ns h \<Longrightarrow>
   list_all (on_grid (period_ns h) start) (map (repeat_row h nxt start) [0..<k])"
  by (simp add: list_all_iff on_grid_def repeat_row_def algebra_simps)

lemma live_step:
  assumes lv: "live h w lf nxt start t'"
    and res: "handle_msg ok h (Decodable f) t = Some r"
  shows "\<exists>k h' w'. r = Inr h' \<and>
           live h' w' f (nxt + (int k + 1) * period_ns h) start t \<and>
           period_ns h' = period_ns h \<and> video_start_ts h' = Some start \<and>
           csv_rows h' = csv_rows h @ map (repeat_row h nxt start) [0..<k] @
                           [real_row (frame_idx h + int k) start t] \<and>
           frame_size w' = frame_size w \<and>
           write_calls w' = write_calls w @ replicate k lf @ [f] \<and>
           (\<forall>i<k. nxt + int i * period_ns h < t) \<and> t \<le> nxt + int k * period_ns h"
proof -
  from lv have run: "running h w lf nxt start" and seen: "first_img_seen h"
    and nx: "nxt = start + frame_idx h * period_ns h"
    and fi: "frame_idx h = int (length (csv_rows h))"
    and ix0: "indexed_from 0 (csv_rows h)"
    and ne: "csv_rows h \<noteq> []"
    and gr: "list_all (on_grid (period_ns h) start) (csv_rows h)"
    and h0: "video_timestamp_ns (hd (csv_rows h)) = 0"
    unfolding live_def by blast+
  from handle_msg_running[OF run seen res] obtain k where
    r: "r = Inr (placed (held h w lf nxt start k)
                        (w\<lparr>write_calls := write_calls w @ replicate k lf\<rparr>)
                        (nxt + int k * period_ns h) start f t)"
    and lo: "\<forall>i<k. nxt + int i * period_ns h < t"
    and hi: "t \<le> nxt + int k * period_ns h"
    by blast
  let ?w' = "w\<lparr>write_calls := write_calls w @ replicate k lf @ [f]\<rparr>"
  let ?h' = "placed (held h w lf nxt start k)
                        (w\<lparr>write_calls := write_calls w @ replicate k lf\<rparr>)
                        (nxt + int k * period_ns h) start f t"
  have rows: "csv_rows ?h' = csv_rows h @ map (repeat_row h nxt start) [0..<k] @
                           [real_row (frame_idx h + int k) start t]"
    by (simp add: placed_def held_def real_row_def)
  have idx: "frame_idx ?h' = frame_idx h + int k + 1"
    by (simp add: placed_def held_def)
  have per: "period_ns ?h' = period_ns h"
    by (simp add: placed_def held_def)
  have run': "running ?h' ?w' f (nxt + (int k + 1) * period_ns h) start"
    using run by (simp add: running_def placed_def held_def algebra_simps)
  have ix: "indexed_from 0 (csv_rows ?h')"
    using ix0 fi indexed_from_repeats[of h 0 nxt start k]
    by (simp add: rows indexed_from_append real_row_def)
  have grid: "list_all (on_grid (period_ns ?h') start) (csv_rows ?h')"
    using gr on_grid_repeats[OF nx, of k]
    by (simp add: rows per) (simp add: on_grid_def real_row_def)
  have hd0: "video_timestamp_ns (hd (csv_rows ?h')) = 0"
    using h0 ne by (simp add: rows)
  have lv': "live ?h' ?w' f (nxt + (int k + 1) * period_ns h) start t"
    unfolding live_def
  proof (intro conjI)
    show "running ?h' ?w' f (nxt + (int k + 1) * period_ns h) start" by (rule run')
    show "first_img_seen ?h'" using seen by (simp add: placed_def held_def)
    show "last_source_ts_ns ?h' = Some t" by (simp add: placed_def)
    show "nxt + (int k + 1) * period_ns h = start + frame_idx ?h' * period_ns ?h'"
      unfolding idx per using nx by (simp add: algebra_simps)
    show "t + period_ns ?h' \<le> nxt + (int k + 1) * period_ns h"
      using hi by (simp add: per algebra_simps)
    show "frame_idx ?h' = int (length (csv_rows ?h'))"
      using fi by (simp add: idx rows)
    show "indexed_from 0 (csv_rows ?h')" by (rule ix)
    show "csv_rows ?h' \<noteq> []" by (simp add: rows)
    show "last (csv_rows ?h') = real_row (frame_idx ?h' - 1) start t"
      by (simp add: rows idx)
    show "list_all (on_grid (period_ns ?h') start) (csv_rows ?h')" by (rule grid)
    show "video_timestamp_ns (hd (csv_rows ?h')) = 0" by (rule hd0)
  qed
  have vs: "video_start_ts ?h' = Some start"
    using run by (simp add: placed_def held_def running_def)
  show ?thesis
    apply (rule exI[of _ k], rule exI[of _ ?h'], rule exI[of _ ?w'])
    using r lv' per rows lo hi vs by simp
qed

section \<open>Runs from a new handler\<close>

lemma live_tidy: "live h w lf nxt start t' \<Longrightarrow> tidy h"
  unfolding live_def tidy_def by blast

lemma tidy_new: "tidy (new_handler p)"
  by (simp add: tidy_def new_handler_def)

lemma live_first:
  assumes "handle_msg ok (new_handler p) m t = Some (Inr h)"
  shows "\<exists>w lf. live h w lf (t + p) t t \<and> period_ns h = p \<and> ordered h t t \<and>
           csv_rows h = [real_row 0 t t] \<and> m = Decodable lf \<and>
           frame_size w = (width lf, height lf) \<and> ok"
proof (cases m)
  case Undecodable
  with assms show ?thesis by (simp add: handle_msg_undecodable)
next
  case (Decodable f)
  with assms show ?thesis
    by (auto simp: handle_msg_fresh live_def running_def real_row_def on_grid_def ordered_def
        split: if_splits)
qed

lemma first_outcome:
  "\<exists>r. handle_msg ok (new_handler p) m t = Some r \<and>
       (case r of Inl (e, h') \<Rightarrow> csv_rows h' = [] \<and> frame_idx h' = 0 | Inr h' \<Rightarrow> True)"
proof (cases m)
  case Undecodable
  then show ?thesis by (simp add: handle_msg_undecodable new_handler_def)
next
  case (Decodable f)
  show ?thesis unfolding Decodable handle_msg_fresh by (simp add: new_handler_def)
qed

lemma sorted_ticks: "0 \<le> p \<Longrightarrow> sorted (map (\<lambda>i. a + int i * p) [0..<k])"
proof (induction k)
  case 0
  show ?case by simp
next
  case (Suc k)
  have "int i * p \<le> int k * p" if "i < k" for i
    using that Suc.prems by (intro mult_right_mono) simp_all
  with Suc show ?case by (simp add: sorted_append)
qed

lemma ordered_step:
  assumes lv: "live h w lf nxt start t'" and od: "ordered h start t'"
    and le: "t' \<le> t" and pos: "0 \<le> period_ns h"
    and rows: "csv_rows h' = csv_rows h @ map (repeat_row h nxt start) [0..<k] @
                           [real_row (frame_idx h + int k) start t]"
    and lo: "\<forall>i<k. nxt + int i * period_ns h < t"
  shows "ordered h' start t"
proof -
  from lv have bnd: "t' + period_ns h \<le> nxt" unfolding live_def by blast
  from od have so: "sorted (map video_timestamp_ns (csv_rows h))"
    and ub: "\<forall>r\<in>set (csv_rows h). video_timestamp_ns r \<le> t' - start"
    by (simp_all add: ordered_def list_all_iff)
  have ticks: "map video_timestamp_ns (map (repeat_row h nxt start) [0..<k]) =
      map (\<lambda>i. (nxt - start) + int i * period_ns h) [0..<k]"
    by (simp add: repeat_row_def)
  have st: "sorted (map video_timestamp_ns (map (repeat_row h nxt start) [0..<k]))"
    unfolding ticks by (rule sorted_ticks[OF pos])
  have nn: "0 \<le> int i * period_ns h" for i using pos by simp
  have a: "video_timestamp_ns r \<le> nxt + int i * period_ns h - start"
    if "r \<in> set (csv_rows h)" for r i
  proof -
    from ub that have "video_timestamp_ns r \<le> t' - start" by blast
    with bnd pos nn[of i] show ?thesis by linarith
  qed
  have b: "nxt + int i * period_ns h - start \<le> t - start" if "i < k" for i
  proof -
    from lo that have "nxt + int i * period_ns h < t" by blast
    then show ?thesis by linarith
  qed
  have c: "video_timestamp_ns r \<le> t - start" if "r \<in> set (csv_rows h)" for r
  proof -
    from ub that have "video_timestamp_ns r \<le> t' - start" by blast
    with le show ?thesis by linarith
  qed
  have "sorted (map video_timestamp_ns (csv_rows h'))"
    unfolding rows using so st a b c
    by (auto simp: sorted_append real_row_def repeat_row_def simp del: map_map)
  moreover have "list_all (\<lambda>r. video_timestamp_ns r \<le> t - start) (csv_rows h')"
    unfolding rows using b c by (auto simp: list_all_iff real_row_def repeat_row_def)
  ultimately show ?thesis by (simp add: ordered_def)
qed

lemma run_live:
  assumes "live h w lf nxt start t'" "handle_msgs ok h feed = Some (Inr h')"
  shows "\<exists>w' lf' nxt' t''. live h' w' lf' nxt' start t'' \<and> period_ns h' = period_ns h \<and>
           frame_size w' = frame_size w"
  using assms
proof (induction feed arbitrary: h w lf nxt t')
  case Nil
  then show ?case by auto
next
  case (Cons a feed)
  obtain m t where a: "a = (m, t)" by (cases a)
  from Cons.prems(2) a obtain h1 where
    h1: "handle_msg ok h m t = Some (Inr h1)" and rest: "handle_msgs ok h1 feed = Some (Inr h')"
    by (auto split: option.splits sum.splits)
  from h1 obtain f where m: "m = Decodable f"
    by (cases m) (simp_all add: handle_msg_undecodable)
  from live_step[OF Cons.prems(1) h1[unfolded m]] obtain k w1 where
    "live h1 w1 f (nxt + (int k + 1) * period_ns h) start t" "period_ns h1 = period_ns h"
    "frame_size w1 = frame_size w"
    by auto
  with Cons.IH[OF _ rest] show ?case by metis
qed

lemma run_ordered:
  assumes "live h w lf nxt start t'" "ordered h start t'" "0 \<le> period_ns h"
    "sorted (t' # map snd feed)" "handle_msgs ok h feed = Some (Inr h')"
  shows "sorted (map video_timestamp_ns (csv_rows h'))"
  using assms
proof (induction feed arbitrary: h w lf nxt t')
  case Nil
  then show ?case by (simp add: ordered_def)
next
  case (Cons a feed)
  obtain m t where a: "a = (m, t)" by (cases a)
  from Cons.prems(5) a obtain h1 where
    h1: "handle_msg ok h m t = Some (Inr h1)" and rest: "handle_msgs ok h1 feed = Some (Inr h')"
    by (auto split: option.splits sum.splits)
  from h1 obtain f where m: "m = Decodable f"
    by (cases m) (simp_all add: handle_msg_undecodable)
  from Cons.prems(4) a have le: "t' \<le> t" and srt: "sorted (t # map snd feed)" by simp_all
  from live_step[OF Cons.prems(1) h1[unfolded m]] obtain k w1 where
    lv1: "live h1 w1 f (nxt + (int k + 1) * period_ns h) start t" and p1: "period_ns h1 = period_ns h"
    and rows: "csv_rows h1 = csv_rows h @ map (repeat_row h nxt start) [0..<k] @
                           [real_row (frame_idx h + int k) start t]"
    and lo: "\<forall>i<k. nxt + int i * period_ns h < t"
    by auto
  have od1: "ordered h1 start t"
    by (rule ordered_step[OF Cons.prems(1) Cons.prems(2) le Cons.prems(3) rows lo])
  from Cons.prems(3) p1 have "0 \<le> period_ns h1" by simp
  from Cons.IH[OF lv1 od1 this srt rest] show ?case .
qed

lemma step_total:
  assumes "live h w lf nxt start t'" "0 < period_ns h"
  shows "\<exists>r. handle_msg ok h m t = Some r \<and>
           (case r of Inl (e, h') \<Rightarrow> h' = h | Inr h' \<Rightarrow> True)"
proof (cases m)
  case Undecodable
  then show ?thesis by (simp add: handle_msg_undecodable)
next
  case (Decodable f)
  from assms(1) have "running h w lf nxt start" "first_img_seen h" unfolding live_def by blast+
  from handle_msg_running_total[OF this assms(2), of ok f t] Decodable show ?thesis by auto
qed

lemma run_total:
  assumes "live h w lf nxt start t'" "0 < period_ns h"
  shows "\<exists>r w' lf' nxt' t''. handle_msgs ok h feed = Some r \<and>
           live (final_state r) w' lf' nxt' start t'' \<and>
           period_ns (final_state r) = period_ns h"
  using assms
proof (induction feed arbitrary: h w lf nxt t')
  case Nil
  then show ?case by (auto simp: final_state_def)
next
  case (Cons a feed)
  obtain m t where a: "a = (m, t)" by (cases a)
  from step_total[OF Cons.prems, of ok m t] obtain r where
    r: "handle_msg ok h m t = Some r" "case r of Inl (e, h') \<Rightarrow> h' = h | Inr h' \<Rightarrow> True" by blast
  show ?case
  proof (cases r)
    case (Inl x)
    obtain e h' where x: "x = (e, h')" by (cases x)
    from r Inl x have "handle_msgs ok h (a # feed) = Some (Inl (e, h))" "final_state (Inl (e, h)) = h"
      by (simp_all add: a final_state_def)
    with Cons.prems(1) show ?thesis by auto
  next
    case (Inr h1)
    with r(1) obtain f where m: "m = Decodable f"
      by (cases m) (simp_all add: handle_msg_undecodable)
    from live_step[OF Cons.prems(1) r(1)[unfolded m Inr]] obtain k w1 where
      lv1: "live h1 w1 f (nxt + (int k + 1) * period_ns h) start t" and p1: "period_ns h1 = period_ns h"
      by auto
    from Cons.prems(2) p1 have "0 < period_ns h1" by simp
    from Cons.IH[OF lv1 this] r(1) Inr a p1 show ?thesis by simp
  qed
qed

lemma run_total_decodable:
  assumes "live h w lf nxt start t'" "0 < period_ns h"
  shows "\<exists>h'. handle_msgs ok h (map (\<lambda>(f, t). (Decodable f, t)) frames) = Some (Inr h')"
  using assms
proof (induction frames arbitrary: h w lf nxt t')
  case Nil
  then show ?case by simp
next
  case (Cons a frames)
  obtain f t where a: "a = (f, t)" by (cases a)
  from Cons.prems(1) have "running h w lf nxt start" "first_img_seen h" unfolding live_def by blast+
  from handle_msg_running_total[OF this Cons.prems(2), of ok f t] obtain h1 where
    h1: "handle_msg ok h (Decodable f) t = Some (Inr h1)" by blast
  from live_step[OF Cons.prems(1) h1] obtain k w1 where
    lv1: "live h1 w1 f (nxt + (int k + 1) * period_ns h) start t" and p1: "period_ns h1 = period_ns h"
    by auto
  from Cons.prems(2) p1 have "0 < period_ns h1" by simp
  from Cons.IH[OF lv1 this] h1 a show ?case by simp
qed

lemma handle_msg_no_gap:
  assumes lv: "live h w lf nxt start t'" and le: "t \<le> nxt"
  shows "emit_frozen_frames_until ok (mark_first h t) t = Some (Inr (mark_first h t, 0))"
    and "handle_msg ok h (Decodable f) t = Some (Inr (placed h w nxt start f t))"
proof -
  from lv have run: "running h w lf nxt start" and seen: "first_img_seen h"
    unfolding live_def by blast+
  from seen have mf: "mark_first h t = h" by (simp add: mark_first_def)
  have loop: "emit_frozen_loop ok t h 0 = Some (Inr (h, 0))"
    using run le by (subst emit_frozen_loop.simps) (simp add: running_def)
  show "emit_frozen_frames_until ok (mark_first h t) t = Some (Inr (mark_first h t, 0))"
    by (simp add: mf emit_frozen_frames_until_def loop)
  from run have "emit_real ok h f t = Inr (placed h w nxt start f t)"
    by (intro emit_real_placed) (simp_all add: running_def)
  then show "handle_msg ok h (Decodable f) t = Some (Inr (placed h w nxt start f t))"
    by (simp add: handle_msg_def decode_def mf emit_frozen_frames_until_def loop)
qed

lemma reach_live:
  assumes "handle_msgs ok (new_handler p) ((m, t0) # feed) = Some (Inr h)"
  shows "\<exists>w lf nxt t' f0. live h w lf nxt t0 t' \<and> period_ns h = p \<and> m = Decodable f0 \<and>
           frame_size w = (width f0, height f0) \<and> ok"
proof -
  from assms obtain h1 where
    h1: "handle_msg ok (new_handler p) m t0 = Some (Inr h1)"
    and rest: "handle_msgs ok h1 feed = Some (Inr h)"
    by (auto split: option.splits sum.splits)
  from live_first[OF h1] obtain w1 f0 where
    l1: "live h1 w1 f0 (t0 + p) t0 t0" "period_ns h1 = p" "m = Decodable f0"
        "frame_size w1 = (width f0, height f0)" "ok"
    by blast
  from run_live[OF l1(1) rest] l1(2-) show ?thesis by metis
qed

text \<open>The equations that evaluate a run on a concrete feed.\<close>

lemmas run_defs = handle_msg_def new_handler_def decode_def mark_first_def
  emit_frozen_frames_until_def emit_frozen_loop.simps emit_frozen_body_def
  init_writer_if_needed_def writer_write_def emit_real_def

section \<open>Nothing is released inside the read loop\<close>

lemma final_handlers_simps:
  "final_handlers (Inl (e, hs)) = hs" "final_handlers (Inr hs) = hs"
  by (simp_all add: final_handlers_def)

lemma unreleased_body:
  "unreleased h \<Longrightarrow> unreleased (final_state (emit_frozen_body ok h nxt lf))"
  by (auto simp: unreleased_def final_state_def emit_frozen_body_def init_writer_if_needed_def
      writer_write_def Let_def split: option.splits)

lemma unreleased_real:
  "unreleased h \<Longrightarrow> unreleased (final_state (emit_real ok h f t))"
  by (auto simp: unreleased_def final_state_def emit_real_def init_writer_if_needed_def
      writer_write_def Let_def split: option.splits)

lemma unreleased_loop:
  assumes "emit_frozen_loop ok t h e = Some r"
  shows "unreleased h \<longrightarrow>
     (case r of Inl (er, h') \<Rightarrow> unreleased h' | Inr (h', n) \<Rightarrow> unreleased h')"
  using assms
proof (induction ok t h e r rule: emit_frozen_loop.raw_induct[rotated 1, consumes 1])
  case (1 loop ok t h e r)
  show ?case
  proof
    assume u: "unreleased h"
    show "case r of Inl (er, h') \<Rightarrow> unreleased h' | Inr (h', n) \<Rightarrow> unreleased h'"
    proof (cases "next_target_ts_ns h")
      case None
      with 1(2) u show ?thesis by auto
    next
      case (Some nxt)
      show ?thesis
      proof (cases "nxt < t \<and> last_frame_bgr h \<noteq> None")
        case False
        with 1(2) Some u show ?thesis by (auto split: if_splits option.splits)
      next
        case True
        then obtain lf where lf: "last_frame_bgr h = Some lf" by auto
        from unreleased_body[OF u, of ok nxt lf]
        have ub: "unreleased (final_state (emit_frozen_body ok h nxt lf))" .
        show ?thesis
        proof (cases "emit_frozen_body ok h nxt lf")
          case (Inl x)
          with 1(2) Some True lf ub show ?thesis
            by (cases x) (auto simp: final_state_def)
        next
          case (Inr h1)
          with 1(2) Some True lf have "loop ok t h1 (e + 1) = Some r" by simp
          from 1(1)[OF this] ub Inr show ?thesis by (simp add: final_state_def)
        qed
      qed
    qed
  qed
qed

lemma unreleased_handle_msg:
  assumes "handle_msg ok h m t = Some r" "unreleased h"
  shows "unreleased (final_state r)"
proof (cases m)
  case Undecodable
  with assms show ?thesis by (auto simp: handle_msg_undecodable final_state_def)
next
  case (Decodable f)
  have um: "unreleased (mark_first h t)"
    using assms(2) by (simp add: unreleased_def mark_first_def)
  from assms(1) Decodable obtain x where
    x: "emit_frozen_loop ok t (mark_first h t) 0 = Some x"
    by (auto simp: handle_msg_def decode_def emit_frozen_frames_until_def split: option.splits)
  from unreleased_loop[OF x] um
  have ux: "case x of Inl (er, h') \<Rightarrow> unreleased h' | Inr (h', n) \<Rightarrow> unreleased h'" by simp
  show ?thesis
  proof (cases x)
    case (Inl y)
    with assms(1) Decodable x ux show ?thesis
      by (cases y) (auto simp: handle_msg_def decode_def emit_frozen_frames_until_def final_state_def)
  next
    case (Inr y)
    obtain h1 n where y: "y = (h1, n)" by (cases y)
    from ux Inr y have "unreleased h1" by simp
    from unreleased_real[OF this, of ok f t] assms(1) Decodable x Inr y show ?thesis
      by (simp add: handle_msg_def decode_def emit_frozen_frames_until_def)
  qed
qed

lemma unreleased_new: "unreleased (new_handler p)"
  by (simp add: unreleased_def new_handler_def)

lemma all_unreleased_upd:
  "all_unreleased hs \<Longrightarrow> (\<And>h. th = ImageTopicHandler h \<Longrightarrow> unreleased h) \<Longrightarrow>
   all_unreleased (hs(k \<mapsto> th))"
  by (auto simp: all_unreleased_def)

lemma unreleased_read_records:
  assumes "read_records ok topics hs feed = Some r" "all_unreleased hs"
  shows "all_unreleased (final_handlers r)"
  using assms
proof (induction feed arbitrary: hs)
  case Nil
  then show ?case by (auto simp: final_handlers_simps)
next
  case (Cons a feed)
  obtain topic msg t where a: "a = (topic, msg, t)" by (cases a)
  show ?case
  proof (cases "topics topic")
    case None
    with Cons.prems a show ?thesis by (auto simp: final_handlers_simps)
  next
    case (Some ty)
    let ?hdl = "case hs topic of None \<Rightarrow> make_handler ty | Some x \<Rightarrow> x"
    let ?hs1 = "hs(topic \<mapsto> ?hdl)"
    have skip: "\<not> (ty = IMAGE \<and> \<not> PROCESS_IMAGES)" by (simp add: PROCESS_IMAGES_def)
    have u_hdl: "unreleased h" if "?hdl = ImageTopicHandler h" for h
      using that Cons.prems(2)
      by (auto simp: all_unreleased_def make_handler_def unreleased_new
          split: option.splits if_splits)
    have u1: "all_unreleased ?hs1"
      by (rule all_unreleased_upd[OF Cons.prems(2)]) (rule u_hdl)
    show ?thesis
    proof (cases ?hdl)
      case (ImageTopicHandler h)
      from Cons.prems(1) a Some skip ImageTopicHandler obtain x where
        x: "handle_msg ok h (as_image msg) t = Some x"
        by (auto simp: Let_def split: option.splits)
      from unreleased_handle_msg[OF x u_hdl[OF ImageTopicHandler]]
      have ux: "unreleased (final_state x)" .
      show ?thesis
      proof (cases x)
        case (Inl y)
        obtain e h' where y: "y = (e, h')" by (cases y)
        from ux Inl y have "unreleased h'" by (simp add: final_state_def)
        then have u2: "all_unreleased (?hs1(topic \<mapsto> ImageTopicHandler h'))"
          by (intro all_unreleased_upd[OF u1]) simp
        from Cons.prems(1) a Some skip ImageTopicHandler x Inl y
        have r: "r = Inl (e, ?hs1(topic \<mapsto> ImageTopicHandler h'))"
          by (simp add: Let_def)
        have "final_handlers r = ?hs1(topic \<mapsto> ImageTopicHandler h')"
          unfolding r by (rule final_handlers_simps(1))
        with u2 show ?thesis by (simp only:)
      next
        case (Inr h')
        from ux Inr have "unreleased h'" by (simp add: final_state_def)
        then have u2: "all_unreleased (?hs1(topic \<mapsto> ImageTopicHandler h'))"
          by (intro all_unreleased_upd[OF u1]) simp
        from Cons.prems(1) a Some skip ImageTopicHandler x Inr
        have "read_records ok topics (?hs1(topic \<mapsto> ImageTopicHandler h')) feed = Some r"
          by (simp add: Let_def)
        from Cons.IH[OF this u2] show ?thesis .
      qed
    next
      case DiagnosticArrayHandler
      with Cons.prems(1) a Some skip have "read_records ok topics ?hs1 feed = Some r"
        by (simp add: Let_def)
      from Cons.IH[OF this u1] show ?thesis .
    next
      case TopicHandlerCsv
      with Cons.prems(1) a Some skip have "read_records ok topics ?hs1 feed = Some r"
        by (simp add: Let_def)
      from Cons.IH[OF this u1] show ?thesis .
    qed
  qed
qed

lemma all_unreleased_empty: "all_unreleased Map.empty"
  by (simp add: all_unreleased_def)

section \<open>The read loop up to a message that does not decode\<close>

lemma read_records_append:
  assumes "read_records ok topics hs pre = Some (Inr hs1)"
  shows "read_records ok topics hs (pre @ rest) = read_records ok topics hs1 rest"
  using assms
proof (induction pre arbitrary: hs)
  case Nil
  then show ?case by simp
next
  case (Cons a pre)
  obtain topic msg t where a: "a = (topic, msg, t)" by (cases a)
  show ?case
  proof (cases "topics topic")
    case None
    with Cons.prems a show ?thesis by simp
  next
    case (Some ty)
    let ?hdl = "case hs topic of None \<Rightarrow> make_handler ty | Some x \<Rightarrow> x"
    let ?hs1 = "hs(topic \<mapsto> ?hdl)"
    have skip: "\<not> (ty = IMAGE \<and> \<not> PROCESS_IMAGES)" by (simp add: PROCESS_IMAGES_def)
    show ?thesis
    proof (cases ?hdl)
      case (ImageTopicHandler h)
      from Cons.prems a Some skip ImageTopicHandler obtain h' where
        x: "handle_msg ok h (as_image msg) t = Some (Inr h')"
        and r: "read_records ok topics (?hs1(topic \<mapsto> ImageTopicHandler h')) pre = Some (Inr hs1)"
        by (auto simp: Let_def split: option.splits sum.splits)
      have "read_records ok topics hs ((a # pre) @ rest) =
              read_records ok topics (?hs1(topic \<mapsto> ImageTopicHandler h')) (pre @ rest)"
        using a Some ImageTopicHandler x by (simp add: Let_def PROCESS_IMAGES_def)
      also have "\<dots> = read_records ok topics hs1 rest" by (rule Cons.IH[OF r])
      finally show ?thesis .
    next
      case DiagnosticArrayHandler
      with Cons.prems a Some skip have r: "read_records ok topics ?hs1 pre = Some (Inr hs1)"
        by (simp add: Let_def)
      have "read_records ok topics hs ((a # pre) @ rest) = read_records ok topics ?hs1 (pre @ rest)"
        using a Some DiagnosticArrayHandler by (simp add: Let_def PROCESS_IMAGES_def)
      also have "\<dots> = read_records ok topics hs1 rest" by (rule Cons.IH[OF r])
      finally show ?thesis .
    next
      case TopicHandlerCsv
      with Cons.prems a Some skip have r: "read_records ok topics ?hs1 pre = Some (Inr hs1)"
        by (simp add: Let_def)
      have "read_records ok topics hs ((a # pre) @ rest) = read_records ok topics ?hs1 (pre @ rest)"
        using a Some TopicHandlerCsv by (simp add: Let_def PROCESS_IMAGES_def)
      also have "\<dots> = read_records ok topics hs1 rest" by (rule Cons.IH[OF r])
      finally show ?thesis .
    qed
  qed
qed

lemma image_typed_empty: "image_typed topics Map.empty"
  by (simp add: image_typed_def)

lemma image_typed_upd:
  "image_typed topics hs \<Longrightarrow> (topics k = Some IMAGE \<Longrightarrow> \<exists>h. th = ImageTopicHandler h) \<Longrightarrow>
   image_typed topics (hs(k \<mapsto> th))"
  by (auto simp: image_typed_def)

lemma image_typed_read_records:
  assumes "read_records ok topics hs feed = Some (Inr hs1)" and "image_typed topics hs"
  shows "image_typed topics hs1"
  using assms
proof (induction feed arbitrary: hs)
  case Nil
  then show ?case by simp
next
  case (Cons a feed)
  obtain topic msg t where a: "a = (topic, msg, t)" by (cases a)
  from Cons.prems(1) a obtain ty where Some: "topics topic = Some ty"
    by (cases "topics topic") auto
  let ?hdl = "case hs topic of None \<Rightarrow> make_handler ty | Some x \<Rightarrow> x"
  let ?hs1 = "hs(topic \<mapsto> ?hdl)"
  have skip: "\<not> (ty = IMAGE \<and> \<not> PROCESS_IMAGES)" by (simp add: PROCESS_IMAGES_def)
  have hdl: "\<exists>h. ?hdl = ImageTopicHandler h" if "topics topic = Some IMAGE"
    using that Cons.prems(2) Some
    by (auto simp: image_typed_def make_handler_def PROCESS_IMAGES_def split: option.splits)
  have inv1: "image_typed topics ?hs1"
    by (rule image_typed_upd[OF Cons.prems(2)]) (rule hdl)
  show ?case
  proof (cases ?hdl)
    case (ImageTopicHandler h)
    from Cons.prems(1) a Some skip ImageTopicHandler obtain h' where
      r: "read_records ok topics (?hs1(topic \<mapsto> ImageTopicHandler h')) feed = Some (Inr hs1)"
      by (auto simp: Let_def split: option.splits sum.splits)
    have "image_typed topics (?hs1(topic \<mapsto> ImageTopicHandler h'))"
      by (rule image_typed_upd[OF inv1]) simp
    from Cons.IH[OF r this] show ?thesis .
  next
    case DiagnosticArrayHandler
    with Cons.prems(1) a Some skip have r: "read_records ok topics ?hs1 feed = Some (Inr hs1)"
      by (simp add: Let_def)
    from Cons.IH[OF r inv1] show ?thesis .
  next
    case TopicHandlerCsv
    with Cons.prems(1) a Some skip have r: "read_records ok topics ?hs1 feed = Some (Inr hs1)"
      by (simp add: Let_def)
    from Cons.IH[OF r inv1] show ?thesis .
  qed
qed

lemma read_records_undecodable:
  assumes ty: "topics topic = Some IMAGE" and inv: "image_typed topics hs"
  shows "read_records ok topics hs ((topic, ImagePayload Undecodable, t) # later) =
     Some (Inl (DecodeError,
       (case hs topic of
          None \<Rightarrow> hs(topic \<mapsto> ImageTopicHandler (new_handler TARGET_PERIOD_NS))
        | Some th \<Rightarrow> hs)))"
proof (cases "hs topic")
  case None
  with ty show ?thesis
    by (simp add: PROCESS_IMAGES_def make_handler_def as_image_def handle_msg_undecodable)
next
  case (Some th)
  with inv ty obtain h where th: "th = ImageTopicHandler h" by (auto simp: image_typed_def)
  from Some th have "hs(topic \<mapsto> ImageTopicHandler h) = hs" by (simp add: map_upd_triv)
  with ty Some th show ?thesis
    by (simp add: PROCESS_IMAGES_def as_image_def handle_msg_undecodable)
qed

text \<open>The equations that evaluate \<open>process_bag\<close> on a concrete feed.\<close>

lemmas bag_defs = process_bag_def camera_topics_def PROCESS_IMAGES_def IMAGE_def DIAGNOSTICS_def
  make_handler_def as_image_def TARGET_PERIOD_NS_def close_handler_def close_def

section \<open>The claims\<close>

text \<open>
  C1. Whatever the feed (sorted by timestamp or not), with a positive period every run
  of the handler returns, and the \<open>frame_index\<close> column of the sidecar rows it has
  written reads \<open>0, 1, \<dots>, N - 1\<close> in emission order, \<open>N\<close> being the number of rows;
  \<open>frame_idx\<close> ends at \<open>N\<close>. This holds for a run that ends by an exception as well.
\<close>

theorem frame_index_gapless:
  assumes "0 < p"
  shows "\<exists>r. handle_msgs ok (new_handler p) feed = Some r \<and>
           frame_idx (final_state r) = int (length (csv_rows (final_state r))) \<and>
           map frame_index (csv_rows (final_state r)) =
             map int [0..<length (csv_rows (final_state r))]"
proof -
  have "\<exists>r. handle_msgs ok (new_handler p) feed = Some r \<and> tidy (final_state r)"
  proof (cases feed)
    case Nil
    then show ?thesis by (simp add: final_state_def tidy_new)
  next
    case (Cons a rest)
    obtain m t where a: "a = (m, t)" by (cases a)
    from first_outcome[of ok p m t] obtain r1 where
      r1: "handle_msg ok (new_handler p) m t = Some r1"
          "case r1 of Inl (e, h') \<Rightarrow> csv_rows h' = [] \<and> frame_idx h' = 0 | Inr h' \<Rightarrow> True"
      by blast
    show ?thesis
    proof (cases r1)
      case (Inl x)
      with r1 Cons a show ?thesis
        by (cases x) (auto simp: final_state_def tidy_def)
    next
      case (Inr h1)
      from live_first[OF r1(1)[unfolded Inr]] obtain w lf where
        lv: "live h1 w lf (t + p) t t" and per: "period_ns h1 = p" by blast
      from assms per have "0 < period_ns h1" by simp
      from run_total[OF lv this, of ok rest] obtain r w' lf' nxt' t'' where
        "handle_msgs ok h1 rest = Some r" "live (final_state r) w' lf' nxt' t t''"
        by blast
      with r1(1) Inr Cons a show ?thesis by (auto dest: live_tidy)
    qed
  qed
  then obtain r where r: "handle_msgs ok (new_handler p) feed = Some r" "tidy (final_state r)"
    by blast
  from r(2) have "map frame_index (csv_rows (final_state r)) =
             map int [0..<length (csv_rows (final_state r))]"
    using indexed_from_map[of 0 "csv_rows (final_state r)"] by (simp add: tidy_def)
  with r show ?thesis by (auto simp: tidy_def)
qed

theorem frame_index_gapless_witness:
  "(0::int) < 100000000 \<and>
   (\<exists>r. handle_msgs True (new_handler 100000000)
           [(Decodable \<lparr>height = 1, width = 1, pixels = [7]\<rparr>, 0),
            (Decodable \<lparr>height = 1, width = 1, pixels = [9]\<rparr>, 250000000)] = Some r \<and>
         frame_idx (final_state r) = int (length (csv_rows (final_state r))) \<and>
         map frame_index (csv_rows (final_state r)) =
           map int [0..<length (csv_rows (final_state r))])"
proof -
  have pos: "(0::int) < 100000000" by simp
  show ?thesis by (rule conjI[OF pos frame_index_gapless[OF pos]])
qed

text \<open>
  C2. The claim that the emitted \<open>video_timestamp_ns\<close> values are always
  \<open>0, period_ns, 2 * period_ns, \<dots>\<close> fails: with frames at 0 and 250 ms and a period
  of 100 ms the fourth row carries 250 ms, where the grid would have 300 ms.
\<close>

theorem video_timestamps_not_all_on_grid:
  "map video_timestamp_ns (emitted_rows (handle_msgs True (new_handler 100000000)
      [(Decodable \<lparr>height = 1, width = 1, pixels = [7]\<rparr>, 0),
       (Decodable \<lparr>height = 1, width = 1, pixels = [9]\<rparr>, 250000000)])) =
     [0, 100000000, 200000000, 250000000] \<and>
   (250000000::int) \<noteq> 3 * 100000000"
  by (simp add: run_defs emitted_rows_def final_state_def)

text \<open>
  C2, as the code has it: with a positive period every run returns, and in the rows it
  has written every hold-last repeat is stamped with its grid tick
  \<open>frame_index * period_ns\<close>, while every real row is stamped with the offset of its
  own source timestamp from \<open>video_start_ts\<close>, on the grid or not.
\<close>

theorem repeats_on_grid_reals_at_source_offset:
  assumes "0 < p"
  shows "\<exists>r. handle_msgs ok (new_handler p) feed = Some r \<and>
           (\<forall>row \<in> set (csv_rows (final_state r)).
              (is_repeat row = 1 \<and> video_timestamp_ns row = frame_index row * p) \<or>
              (is_repeat row = 0 \<and>
               (\<exists>start. video_start_ts (final_state r) = Some start \<and>
                  source_timestamp_ns row = Some (start + video_timestamp_ns row))))"
proof (cases feed)
  case Nil
  then show ?thesis by (simp add: final_state_def new_handler_def)
next
  case (Cons a rest)
  obtain m t where a: "a = (m, t)" by (cases a)
  from first_outcome[of ok p m t] obtain r1 where
    r1: "handle_msg ok (new_handler p) m t = Some r1"
        "case r1 of Inl (e, h') \<Rightarrow> csv_rows h' = [] \<and> frame_idx h' = 0 | Inr h' \<Rightarrow> True"
    by blast
  show ?thesis
  proof (cases r1)
    case (Inl x)
    with r1 Cons a show ?thesis
      by (cases x) (auto simp: final_state_def)
  next
    case (Inr h1)
    from live_first[OF r1(1)[unfolded Inr]] obtain w lf where
      lv: "live h1 w lf (t + p) t t" and per: "period_ns h1 = p" by blast
    from assms per have "0 < period_ns h1" by simp
    from run_total[OF lv this, of ok rest] obtain r w' lf' nxt' t'' where
      r: "handle_msgs ok h1 rest = Some r"
      and lr: "live (final_state r) w' lf' nxt' t t''"
      and pr: "period_ns (final_state r) = period_ns h1"
      by blast
    from lr have "list_all (on_grid (period_ns (final_state r)) t) (csv_rows (final_state r))"
      and "video_start_ts (final_state r) = Some t"
      unfolding live_def running_def by blast+
    with pr per have "\<forall>row \<in> set (csv_rows (final_state r)).
              (is_repeat row = 1 \<and> video_timestamp_ns row = frame_index row * p) \<or>
              (is_repeat row = 0 \<and>
               (\<exists>start. video_start_ts (final_state r) = Some start \<and>
                  source_timestamp_ns row = Some (start + video_timestamp_ns row)))"
      by (auto simp: list_all_iff on_grid_def split: if_splits)
    with r r1(1) Inr Cons a show ?thesis by simp
  qed
qed

text \<open>
  The amended C2 at frames ingested at 0 and 250 ms with a period of 100 ms.
\<close>

theorem repeats_on_grid_reals_at_source_offset_witness:
  "(0::int) < 100000000 \<and>
   (\<exists>r. handle_msgs True (new_handler 100000000)
           [(Decodable \<lparr>height = 1, width = 1, pixels = [7]\<rparr>, 0),
            (Decodable \<lparr>height = 1, width = 1, pixels = [9]\<rparr>, 250000000)] = Some r \<and>
         (\<forall>row \<in> set (csv_rows (final_state r)).
            (is_repeat row = 1 \<and> video_timestamp_ns row = frame_index row * 100000000) \<or>
            (is_repeat row = 0 \<and>
             (\<exists>start. video_start_ts (final_state r) = Some start \<and>
                source_timestamp_ns row = Some (start + video_timestamp_ns row)))))"
proof -
  have pos: "(0::int) < 100000000" by simp
  show ?thesis by (rule conjI[OF pos repeats_on_grid_reals_at_source_offset[OF pos]])
qed

text \<open>
  C3. The claim that \<open>next_target_ts_ns\<close> equals \<open>t + period_ns\<close> after every call
  fails: with a period of 100 ms and frames at 0 and 10 ms, the target after the second
  call is 200 ms, not 110 ms.
\<close>

theorem next_target_not_rebased:
  "map_option (next_target_ts_ns \<circ> final_state) (handle_msgs True (new_handler 100000000)
      [(Decodable \<lparr>height = 1, width = 1, pixels = [7]\<rparr>, 0),
       (Decodable \<lparr>height = 1, width = 1, pixels = [9]\<rparr>, 10000000)]) =
     Some (Some 200000000) \<and>
   (200000000::int) \<noteq> 10000000 + 100000000"
  by (simp add: run_defs final_state_def)

text \<open>
  C3, as the code has it: in any state that a run from a new handler can reach, with a
  positive period and a sink that opens, the call that ingests a frame of timestamp
  \<open>t\<close> returns, and after it \<open>next_target_ts_ns\<close> is
  \<open>video_start_ts + frame_idx * period_ns\<close> (one period per emitted frame, repeat or
  real). This is at least \<open>t + period_ns\<close>; after the first frame of a stream it is
  equal to it.
\<close>

theorem next_target_follows_frame_idx:
  assumes "0 < p" and "handle_msgs True (new_handler p) feed = Some (Inr h)"
  shows "(\<exists>h' start. handle_msg True h (Decodable f) t = Some (Inr h') \<and>
            video_start_ts h' = Some start \<and>
            next_target_ts_ns h' = Some (start + frame_idx h' * p) \<and>
            t + p \<le> start + frame_idx h' * p) \<and>
         (\<exists>h1. handle_msg True (new_handler p) (Decodable f) t = Some (Inr h1) \<and>
            next_target_ts_ns h1 = Some (t + p))"
proof
  show "\<exists>h1. handle_msg True (new_handler p) (Decodable f) t = Some (Inr h1) \<and>
            next_target_ts_ns h1 = Some (t + p)"
    by (simp add: handle_msg_fresh)
  show "\<exists>h' start. handle_msg True h (Decodable f) t = Some (Inr h') \<and>
            video_start_ts h' = Some start \<and>
            next_target_ts_ns h' = Some (start + frame_idx h' * p) \<and>
            t + p \<le> start + frame_idx h' * p"
  proof (cases feed)
    case Nil
    with assms(2) have "h = new_handler p" by simp
    then show ?thesis by (simp add: handle_msg_fresh)
  next
    case (Cons a rest)
    obtain m t0 where a: "a = (m, t0)" by (cases a)
    from reach_live[OF assms(2)[unfolded Cons a]] obtain w lf nxt t' where
      lv: "live h w lf nxt t0 t'" and per: "period_ns h = p" by blast
    from lv have run: "running h w lf nxt t0" and seen: "first_img_seen h"
      unfolding live_def by blast+
    from assms(1) per have pos: "0 < period_ns h" by simp
    from handle_msg_running_total[OF run seen pos, of True f t] obtain h' where
      h': "handle_msg True h (Decodable f) t = Some (Inr h')" by blast
    from live_step[OF lv h'] obtain k w1 where
      lv1: "live h' w1 f (nxt + (int k + 1) * period_ns h) t0 t" and p1: "period_ns h' = period_ns h"
      by auto
    from lv1 have "video_start_ts h' = Some t0"
      "next_target_ts_ns h' = Some (nxt + (int k + 1) * period_ns h)"
      "nxt + (int k + 1) * period_ns h = t0 + frame_idx h' * period_ns h'"
      "t + period_ns h' \<le> nxt + (int k + 1) * period_ns h"
      unfolding live_def running_def by blast+
    with per p1 h' show ?thesis by simp
  qed
qed

text \<open>
  The amended C3 in a burst: after a first frame at 0, a second frame at 10 ms with a
  period of 100 ms leaves the target at 200 ms, two periods after the stream start and
  not one period after the frame.
\<close>

theorem next_target_follows_frame_idx_witness:
  "(0::int) < 100000000 \<and>
   handle_msgs True (new_handler 100000000)
      [(Decodable \<lparr>height = 1, width = 1, pixels = [7]\<rparr>, 0)] =
     Some (Inr \<lparr>period_ns = 100000000,
          writer = Some \<lparr>frame_size = (1, 1), opened = True,
                         write_calls = [\<lparr>height = 1, width = 1, pixels = [7]\<rparr>],
                         releases = 0\<rparr>,
          frame_idx = 1, next_target_ts_ns = Some 100000000,
          last_frame_bgr = Some \<lparr>height = 1, width = 1, pixels = [7]\<rparr>,
          video_start_ts = Some 0, first_img_seen = True,
          last_source_ts_ns = Some 0,
          csv_rows =
            [\<lparr>frame_index = 0, video_timestamp_ns = 0,
              source_timestamp_ns = Some 0, is_repeat = 0\<rparr>],
          csv_closes = 0\<rparr>) \<and>
   (\<exists>h'. handle_msg True \<lparr>period_ns = 100000000,
          writer = Some \<lparr>frame_size = (1, 1), opened = True,
                         write_calls = [\<lparr>height = 1, width = 1, pixels = [7]\<rparr>],
                         releases = 0\<rparr>,
          frame_idx = 1, next_target_ts_ns = Some 100000000,
          last_frame_bgr = Some \<lparr>height = 1, width = 1, pixels = [7]\<rparr>,
          video_start_ts = Some 0, first_img_seen = True,
          last_source_ts_ns = Some 0,
          csv_rows =
            [\<lparr>frame_index = 0, video_timestamp_ns = 0,
              source_timestamp_ns = Some 0, is_repeat = 0\<rparr>],
          csv_closes = 0\<rparr>
          (Decodable \<lparr>height = 1, width = 1, pixels = [9]\<rparr>) 10000000 = Some (Inr h') \<and>
      video_start_ts h' = Some 0 \<and> frame_idx h' = 2 \<and>
      next_target_ts_ns h' = Some (0 + frame_idx h' * 100000000) \<and>
      next_target_ts_ns h' = Some 200000000 \<and>
      10000000 + 100000000 \<le> 0 + frame_idx h' * 100000000 \<and>
      next_target_ts_ns h' \<noteq> Some (10000000 + 100000000))"
proof -
  let ?a = "\<lparr>height = 1, width = 1, pixels = [7]\<rparr>"
  let ?b = "\<lparr>height = 1, width = 1, pixels = [9]\<rparr>"
  let ?h = "\<lparr>period_ns = 100000000,
          writer = Some \<lparr>frame_size = (1, 1), opened = True,
                         write_calls = [?a], releases = 0\<rparr>,
          frame_idx = 1, next_target_ts_ns = Some 100000000,
          last_frame_bgr = Some ?a,
          video_start_ts = Some 0, first_img_seen = True,
          last_source_ts_ns = Some 0,
          csv_rows =
            [\<lparr>frame_index = 0, video_timestamp_ns = 0,
              source_timestamp_ns = Some 0, is_repeat = 0\<rparr>],
          csv_closes = 0\<rparr>"
  have pos: "(0::int) < 100000000" by simp
  have run: "handle_msgs True (new_handler 100000000) [(Decodable ?a, 0)] = Some (Inr ?h)"
    by (simp add: run_defs)
  from next_target_follows_frame_idx[OF pos run, of ?b 10000000]
  obtain h' start where
    s: "handle_msg True ?h (Decodable ?b) 10000000 = Some (Inr h')"
       "video_start_ts h' = Some start"
       "next_target_ts_ns h' = Some (start + frame_idx h' * 100000000)"
       "10000000 + 100000000 \<le> start + frame_idx h' * 100000000"
    by blast
  have ev: "handle_msg True ?h (Decodable ?b) 10000000 =
      Some (Inr (?h\<lparr>writer := Some \<lparr>frame_size = (1, 1), opened = True,
                         write_calls = [?a, ?b], releases = 0\<rparr>,
                    csv_rows := [\<lparr>frame_index = 0, video_timestamp_ns = 0,
                                  source_timestamp_ns = Some 0, is_repeat = 0\<rparr>,
                                 \<lparr>frame_index = 1, video_timestamp_ns = 10000000,
                                  source_timestamp_ns = Some 10000000, is_repeat = 0\<rparr>],
                    frame_idx := 2, next_target_ts_ns := Some 200000000,
                    last_frame_bgr := Some ?b, last_source_ts_ns := Some 10000000\<rparr>))"
    by (simp add: run_defs)
  from s(1) ev have st: "video_start_ts h' = Some 0" "frame_idx h' = 2" by auto
  with s(2) have "start = 0" by simp
  with s st have "handle_msg True ?h (Decodable ?b) 10000000 = Some (Inr h') \<and>
      video_start_ts h' = Some 0 \<and> frame_idx h' = 2 \<and>
      next_target_ts_ns h' = Some (0 + frame_idx h' * 100000000) \<and>
      next_target_ts_ns h' = Some 200000000 \<and>
      10000000 + 100000000 \<le> 0 + frame_idx h' * 100000000 \<and>
      next_target_ts_ns h' \<noteq> Some (10000000 + 100000000)"
    by simp
  then have "\<exists>h'. handle_msg True ?h (Decodable ?b) 10000000 = Some (Inr h') \<and>
      video_start_ts h' = Some 0 \<and> frame_idx h' = 2 \<and>
      next_target_ts_ns h' = Some (0 + frame_idx h' * 100000000) \<and>
      next_target_ts_ns h' = Some 200000000 \<and>
      10000000 + 100000000 \<le> 0 + frame_idx h' * 100000000 \<and>
      next_target_ts_ns h' \<noteq> Some (10000000 + 100000000)"
    by (rule exI)
  with pos run show ?thesis by (simp only: simp_thms)
qed

text \<open>
  C4. Two frames \<open>a\<close> and \<open>b\<close> ingested at 0 and 250 ms with a period of 100 ms: four
  rows are written, a real one at 0, repeats at 100 and 200 ms that carry the source
  timestamp of \<open>a\<close>, and a real one at 250 ms; the writer receives \<open>a, a, a, b\<close>.
\<close>

theorem two_frames_gap_filled:
  "handle_msgs True (new_handler 100000000) [(Decodable a, 0), (Decodable b, 250000000)] =
     Some (Inr \<lparr>period_ns = 100000000,
          writer = Some \<lparr>frame_size = (width a, height a), opened = True,
                         write_calls = [a, a, a, b], releases = 0\<rparr>,
          frame_idx = 4, next_target_ts_ns = Some 400000000,
          last_frame_bgr = Some b,
          video_start_ts = Some 0, first_img_seen = True,
          last_source_ts_ns = Some 250000000,
          csv_rows =
            [\<lparr>frame_index = 0, video_timestamp_ns = 0,
              source_timestamp_ns = Some 0, is_repeat = 0\<rparr>,
             \<lparr>frame_index = 1, video_timestamp_ns = 100000000,
              source_timestamp_ns = Some 0, is_repeat = 1\<rparr>,
             \<lparr>frame_index = 2, video_timestamp_ns = 200000000,
              source_timestamp_ns = Some 0, is_repeat = 1\<rparr>,
             \<lparr>frame_index = 3, video_timestamp_ns = 250000000,
              source_timestamp_ns = Some 250000000, is_repeat = 0\<rparr>],
          csv_closes = 0\<rparr>)"
  by (simp add: run_defs)

text \<open>
  C5. The gap-filling loop returns at once, with no frame emitted and the handler
  untouched, on the first frame of a stream, and on any later frame that arrives less
  than a period after the frame before it; the call then writes the one real row.
  Frames at 0, 10 and 20 ms with a period of 100 ms give three real rows.
\<close>

theorem no_gap_fill_on_first_frame_or_burst:
  "emit_frozen_frames_until ok (mark_first (new_handler p) t) t =
     Some (Inr (mark_first (new_handler p) t, 0)) \<and>
   (handle_msgs ok (new_handler p) feed = Some (Inr h) \<longrightarrow>
    last_source_ts_ns h = Some t' \<longrightarrow> t - t' < p \<longrightarrow>
      emit_frozen_frames_until ok (mark_first h t) t = Some (Inr (mark_first h t, 0)) \<and>
      (\<exists>h'. handle_msg ok h (Decodable f) t = Some (Inr h') \<and>
            length (csv_rows h') = length (csv_rows h) + 1 \<and>
            is_repeat (last (csv_rows h')) = 0)) \<and>
   emitted_rows (handle_msgs True (new_handler 100000000)
       [(Decodable a, 0), (Decodable b, 10000000), (Decodable c, 20000000)]) =
     [\<lparr>frame_index = 0, video_timestamp_ns = 0,
       source_timestamp_ns = Some 0, is_repeat = 0\<rparr>,
      \<lparr>frame_index = 1, video_timestamp_ns = 10000000,
       source_timestamp_ns = Some 10000000, is_repeat = 0\<rparr>,
      \<lparr>frame_index = 2, video_timestamp_ns = 20000000,
       source_timestamp_ns = Some 20000000, is_repeat = 0\<rparr>]"
proof (intro conjI impI)
  show "emit_frozen_frames_until ok (mark_first (new_handler p) t) t =
     Some (Inr (mark_first (new_handler p) t, 0))"
    by (simp add: emit_frozen_frames_until_def loop_idle mark_first_def new_handler_def)
next
  assume run: "handle_msgs ok (new_handler p) feed = Some (Inr h)"
    and src: "last_source_ts_ns h = Some t'" and near: "t - t' < p"
  from run src obtain m t0 rest where feed: "feed = (m, t0) # rest"
    by (cases feed) (auto simp: new_handler_def)
  from reach_live[OF run[unfolded feed]] obtain w lf nxt t'' where
    lv: "live h w lf nxt t0 t''" and per: "period_ns h = p" by blast
  from lv src have "t' + period_ns h \<le> nxt" unfolding live_def by auto
  with near per have le: "t \<le> nxt" by simp
  show "emit_frozen_frames_until ok (mark_first h t) t = Some (Inr (mark_first h t, 0))"
    by (rule handle_msg_no_gap(1)[OF lv le])
  have "handle_msg ok h (Decodable f) t = Some (Inr (placed h w nxt t0 f t))"
    by (rule handle_msg_no_gap(2)[OF lv le])
  then show "\<exists>h'. handle_msg ok h (Decodable f) t = Some (Inr h') \<and>
            length (csv_rows h') = length (csv_rows h) + 1 \<and>
            is_repeat (last (csv_rows h')) = 0"
    by (simp add: placed_def)
next
  show "emitted_rows (handle_msgs True (new_handler 100000000)
       [(Decodable a, 0), (Decodable b, 10000000), (Decodable c, 20000000)]) =
     [\<lparr>frame_index = 0, video_timestamp_ns = 0,
       source_timestamp_ns = Some 0, is_repeat = 0\<rparr>,
      \<lparr>frame_index = 1, video_timestamp_ns = 10000000,
       source_timestamp_ns = Some 10000000, is_repeat = 0\<rparr>,
      \<lparr>frame_index = 2, video_timestamp_ns = 20000000,
       source_timestamp_ns = Some 20000000, is_repeat = 0\<rparr>]"
    by (simp add: run_defs emitted_rows_def final_state_def)
qed

text \<open>
  C5 at a stream whose first frame came at timestamp 5, and a second frame 10 ms later
  with a period of 100 ms.
\<close>

theorem no_gap_fill_on_first_frame_or_burst_witness:
  "handle_msgs True (new_handler 100000000)
      [(Decodable \<lparr>height = 1, width = 1, pixels = [7]\<rparr>, 5)] =
     Some (Inr \<lparr>period_ns = 100000000,
          writer = Some \<lparr>frame_size = (1, 1), opened = True,
                write_calls = [\<lparr>height = 1, width = 1, pixels = [7]\<rparr>], releases = 0\<rparr>,
          frame_idx = 1, next_target_ts_ns = Some 100000005,
          last_frame_bgr = Some \<lparr>height = 1, width = 1, pixels = [7]\<rparr>,
          video_start_ts = Some 5, first_img_seen = True,
          last_source_ts_ns = Some 5,
          csv_rows =
            [\<lparr>frame_index = 0, video_timestamp_ns = 0,
                source_timestamp_ns = Some 5, is_repeat = 0\<rparr>],
          csv_closes = 0\<rparr>) \<and>
   (10000005::int) - 5 < 100000000 \<and>
   emit_frozen_frames_until True
     \<lparr>period_ns = 100000000,
          writer = Some \<lparr>frame_size = (1, 1), opened = True,
                write_calls = [\<lparr>height = 1, width = 1, pixels = [7]\<rparr>], releases = 0\<rparr>,
          frame_idx = 1, next_target_ts_ns = Some 100000005,
          last_frame_bgr = Some \<lparr>height = 1, width = 1, pixels = [7]\<rparr>,
          video_start_ts = Some 5, first_img_seen = True,
          last_source_ts_ns = Some 5,
          csv_rows =
            [\<lparr>frame_index = 0, video_timestamp_ns = 0,
                source_timestamp_ns = Some 5, is_repeat = 0\<rparr>],
          csv_closes = 0\<rparr> 10000005 =
     Some (Inr (\<lparr>period_ns = 100000000,
          writer = Some \<lparr>frame_size = (1, 1), opened = True,
                write_calls = [\<lparr>height = 1, width = 1, pixels = [7]\<rparr>], releases = 0\<rparr>,
          frame_idx = 1, next_target_ts_ns = Some 100000005,
          last_frame_bgr = Some \<lparr>height = 1, width = 1, pixels = [7]\<rparr>,
          video_start_ts = Some 5, first_img_seen = True,
          last_source_ts_ns = Some 5,
          csv_rows =
            [\<lparr>frame_index = 0, video_timestamp_ns = 0,
                source_timestamp_ns = Some 5, is_repeat = 0\<rparr>],
          csv_closes = 0\<rparr>, 0))"
proof -
  let ?f = "\<lparr>height = 1, width = 1, pixels = [7]\<rparr>"
  let ?h = "\<lparr>period_ns = 100000000,
          writer = Some \<lparr>frame_size = (1, 1), opened = True,
                write_calls = [?f], releases = 0\<rparr>,
          frame_idx = 1, next_target_ts_ns = Some 100000005,
          last_frame_bgr = Some ?f,
          video_start_ts = Some 5, first_img_seen = True,
          last_source_ts_ns = Some 5,
          csv_rows =
            [\<lparr>frame_index = 0, video_timestamp_ns = 0,
                source_timestamp_ns = Some 5, is_repeat = 0\<rparr>],
          csv_closes = 0\<rparr>"
  have run: "handle_msgs True (new_handler 100000000) [(Decodable ?f, 5)] = Some (Inr ?h)"
    by (simp add: run_defs)
  have src: "last_source_ts_ns ?h = Some 5" by simp
  have near: "(10000005::int) - 5 < 100000000" by simp
  have mf: "mark_first ?h 10000005 = ?h" by (simp add: mark_first_def)
  from no_gap_fill_on_first_frame_or_burst[where ok = True and p = 100000000
      and feed = "[(Decodable ?f, 5)]" and h = ?h and t' = 5 and t = 10000005]
    run src near
  have "emit_frozen_frames_until True (mark_first ?h 10000005) 10000005 =
          Some (Inr (mark_first ?h 10000005, 0))"
    by blast
  with run near mf show ?thesis by simp
qed

text \<open>
  C6. With a positive period and a sink that opens, a non-empty sequence of frames in
  non-decreasing timestamp order is ingested to the end; the first row written has
  \<open>video_timestamp_ns = 0\<close> whatever the first source timestamp, and the
  \<open>video_timestamp_ns\<close> column is non-decreasing.
\<close>

theorem first_video_timestamp_zero_and_sorted:
  assumes "0 < p" and "sorted (map snd frames)" and "frames \<noteq> []"
  shows "\<exists>h. handle_msgs True (new_handler p) (map (\<lambda>(f, t). (Decodable f, t)) frames) =
               Some (Inr h) \<and>
             csv_rows h \<noteq> [] \<and> video_timestamp_ns (hd (csv_rows h)) = 0 \<and>
             sorted (map video_timestamp_ns (csv_rows h))"
proof -
  from assms(3) obtain f0 t0 rest where fr: "frames = (f0, t0) # rest"
    by (cases frames) auto
  let ?rest = "map (\<lambda>(f, t). (Decodable f, t)) rest"
  have "\<exists>h1. handle_msg True (new_handler p) (Decodable f0) t0 = Some (Inr h1)"
    by (simp add: handle_msg_fresh)
  then obtain h1 where h1: "handle_msg True (new_handler p) (Decodable f0) t0 = Some (Inr h1)"
    by blast
  from live_first[OF h1] obtain w lf where
    lv: "live h1 w lf (t0 + p) t0 t0" and per: "period_ns h1 = p" and od: "ordered h1 t0 t0"
    by blast
  from assms(1) per have pos: "0 < period_ns h1" by simp
  from run_total_decodable[OF lv pos, of True rest] obtain h where
    h: "handle_msgs True h1 ?rest = Some (Inr h)" by blast
  have snd_eq: "map snd ?rest = map snd rest" by (induction rest) auto
  from assms(2) fr have "sorted (t0 # map snd rest)" by simp
  then have srt: "sorted (t0 # map snd ?rest)" by (simp only: snd_eq)
  from pos have "0 \<le> period_ns h1" by simp
  from run_ordered[OF lv od this srt h]
  have s: "sorted (map video_timestamp_ns (csv_rows h))" .
  from run_live[OF lv h] obtain w' lf' nxt' t'' where "live h w' lf' nxt' t0 t''" by blast
  then have "csv_rows h \<noteq> []" "video_timestamp_ns (hd (csv_rows h)) = 0"
    unfolding live_def by blast+
  with s h h1 fr show ?thesis by simp
qed

text \<open>C6 at two frames, ingested at timestamps 5 and 12, with a period of 3.\<close>

theorem first_video_timestamp_zero_and_sorted_witness:
  "(0::int) < 3 \<and>
   sorted (map snd [(\<lparr>height = 1, width = 1, pixels = [7]\<rparr>, 5::int),
                    (\<lparr>height = 1, width = 1, pixels = [9]\<rparr>, 12)]) \<and>
   [(\<lparr>height = 1, width = 1, pixels = [7]\<rparr>, 5::int),
    (\<lparr>height = 1, width = 1, pixels = [9]\<rparr>, 12)] \<noteq> [] \<and>
   (\<exists>h. handle_msgs True (new_handler 3)
          (map (\<lambda>(f, t). (Decodable f, t))
             [(\<lparr>height = 1, width = 1, pixels = [7]\<rparr>, 5),
              (\<lparr>height = 1, width = 1, pixels = [9]\<rparr>, 12)]) = Some (Inr h) \<and>
        csv_rows h \<noteq> [] \<and> video_timestamp_ns (hd (csv_rows h)) = 0 \<and>
        sorted (map video_timestamp_ns (csv_rows h)))"
proof -
  let ?fs = "[(\<lparr>height = 1, width = 1, pixels = [7::nat]\<rparr>, 5::int),
              (\<lparr>height = 1, width = 1, pixels = [9]\<rparr>, 12)]"
  have pos: "(0::int) < 3" by simp
  have srt: "sorted (map snd ?fs)" by simp
  have ne: "?fs \<noteq> []" by simp
  from first_video_timestamp_zero_and_sorted[OF pos srt ne] pos srt ne
  show ?thesis by blast
qed

text \<open>
  C10. With a period that is not negative, a frame whose timestamp equals that of the
  frame ingested just before it gets no repeat in front of it and one real row, whose
  \<open>video_timestamp_ns\<close> is that of the previous real row (the last row written) under
  the next \<open>frame_index\<close>.
\<close>

theorem equal_timestamps_share_video_timestamp:
  assumes "0 \<le> p" and "handle_msgs ok (new_handler p) feed = Some (Inr h)"
    and "last_source_ts_ns h = Some t"
  shows "emit_frozen_frames_until ok (mark_first h t) t = Some (Inr (mark_first h t, 0)) \<and>
         (\<exists>h'. handle_msg ok h (Decodable f) t = Some (Inr h') \<and>
               csv_rows h' = csv_rows h @
                 [\<lparr>frame_index = frame_index (last (csv_rows h)) + 1,
                   video_timestamp_ns = video_timestamp_ns (last (csv_rows h)),
                   source_timestamp_ns = Some t, is_repeat = 0\<rparr>]) \<and>
         is_repeat (last (csv_rows h)) = 0 \<and> csv_rows h \<noteq> []"
proof -
  from assms(2,3) obtain m t0 rest where feed: "feed = (m, t0) # rest"
    by (cases feed) (auto simp: new_handler_def)
  from reach_live[OF assms(2)[unfolded feed]] obtain w lf nxt t'' where
    lv: "live h w lf nxt t0 t''" and per: "period_ns h = p" by blast
  from lv assms(3) have tt: "t'' = t" unfolding live_def by auto
  from lv have bnd: "t'' + period_ns h \<le> nxt"
    and lst: "last (csv_rows h) = real_row (frame_idx h - 1) t0 t''"
    and ne: "csv_rows h \<noteq> []"
    unfolding live_def by blast+
  from bnd tt per assms(1) have le: "t \<le> nxt" by simp
  have a: "emit_frozen_frames_until ok (mark_first h t) t = Some (Inr (mark_first h t, 0))"
    by (rule handle_msg_no_gap(1)[OF lv le])
  have b: "handle_msg ok h (Decodable f) t = Some (Inr (placed h w nxt t0 f t))"
    by (rule handle_msg_no_gap(2)[OF lv le])
  have c: "csv_rows (placed h w nxt t0 f t) = csv_rows h @
                 [\<lparr>frame_index = frame_index (last (csv_rows h)) + 1,
                   video_timestamp_ns = video_timestamp_ns (last (csv_rows h)),
                   source_timestamp_ns = Some t, is_repeat = 0\<rparr>]"
    by (simp add: placed_def lst tt real_row_def)
  from a b c lst ne show ?thesis by (simp add: real_row_def)
qed

text \<open>C10 at a stream of one frame ingested at timestamp 5, followed by another at 5.\<close>

theorem equal_timestamps_share_video_timestamp_witness:
  "(0::int) \<le> 100000000 \<and>
   handle_msgs True (new_handler 100000000)
      [(Decodable \<lparr>height = 1, width = 1, pixels = [7]\<rparr>, 5)] =
     Some (Inr \<lparr>period_ns = 100000000,
          writer = Some \<lparr>frame_size = (1, 1), opened = True,
                write_calls = [\<lparr>height = 1, width = 1, pixels = [7]\<rparr>], releases = 0\<rparr>,
          frame_idx = 1, next_target_ts_ns = Some 100000005,
          last_frame_bgr = Some \<lparr>height = 1, width = 1, pixels = [7]\<rparr>,
          video_start_ts = Some 5, first_img_seen = True,
          last_source_ts_ns = Some 5,
          csv_rows =
            [\<lparr>frame_index = 0, video_timestamp_ns = 0,
                source_timestamp_ns = Some 5, is_repeat = 0\<rparr>],
          csv_closes = 0\<rparr>) \<and>
   (\<exists>h'. handle_msg True \<lparr>period_ns = 100000000,
          writer = Some \<lparr>frame_size = (1, 1), opened = True,
                write_calls = [\<lparr>height = 1, width = 1, pixels = [7]\<rparr>], releases = 0\<rparr>,
          frame_idx = 1, next_target_ts_ns = Some 100000005,
          last_frame_bgr = Some \<lparr>height = 1, width = 1, pixels = [7]\<rparr>,
          video_start_ts = Some 5, first_img_seen = True,
          last_source_ts_ns = Some 5,
          csv_rows =
            [\<lparr>frame_index = 0, video_timestamp_ns = 0,
                source_timestamp_ns = Some 5, is_repeat = 0\<rparr>],
          csv_closes = 0\<rparr> (Decodable \<lparr>height = 1, width = 1, pixels = [9]\<rparr>) 5 = Some (Inr h') \<and>
      csv_rows h' =
        [\<lparr>frame_index = 0, video_timestamp_ns = 0,
          source_timestamp_ns = Some 5, is_repeat = 0\<rparr>,
         \<lparr>frame_index = 1, video_timestamp_ns = 0,
          source_timestamp_ns = Some 5, is_repeat = 0\<rparr>])"
proof -
  let ?f = "\<lparr>height = 1, width = 1, pixels = [7]\<rparr>"
  let ?h = "\<lparr>period_ns = 100000000,
          writer = Some \<lparr>frame_size = (1, 1), opened = True,
                write_calls = [?f], releases = 0\<rparr>,
          frame_idx = 1, next_target_ts_ns = Some 100000005,
          last_frame_bgr = Some ?f,
          video_start_ts = Some 5, first_img_seen = True,
          last_source_ts_ns = Some 5,
          csv_rows =
            [\<lparr>frame_index = 0, video_timestamp_ns = 0,
                source_timestamp_ns = Some 5, is_repeat = 0\<rparr>],
          csv_closes = 0\<rparr>"
  have pos: "(0::int) \<le> 100000000" by simp
  have run: "handle_msgs True (new_handler 100000000) [(Decodable ?f, 5)] = Some (Inr ?h)"
    by (simp add: run_defs)
  have src: "last_source_ts_ns ?h = Some 5" by simp
  from equal_timestamps_share_video_timestamp[OF pos run src,
      of "\<lparr>height = 1, width = 1, pixels = [9]\<rparr>"] pos run
  show ?thesis by simp
qed

text \<open>
  C7. The claim that the stream continues after a decode failure fails: in a bag whose
  first image message does not decode and whose second does, \<open>process_bag\<close> ends with
  the decode error, and the handler of the topic is still as the constructor made it:
  the second message was never handled.
\<close>

theorem decode_failure_ends_process_bag:
  "process_bag True camera_topics
      [(''/camera/image_raw'', ImagePayload Undecodable, 0),
       (''/camera/image_raw'', ImagePayload (Decodable \<lparr>height = 1, width = 1, pixels = [7]\<rparr>), 5)] =
     Some (Inl (DecodeError,
       [''/camera/image_raw'' \<mapsto> ImageTopicHandler (new_handler TARGET_PERIOD_NS)]))"
  by (simp add: bag_defs handle_msg_undecodable)

text \<open>
  C7, as the code has it: when decoding fails, \<open>handle_msg\<close> raises before it touches
  the handler, so that no frame is written, no row is added and no field changes.
  \<open>process_bag\<close> does not catch the error. Whatever part of the feed has been read
  before, it ends at the failing message with the decode error: the messages after
  it are not read, the closing loop is not run, and the handlers are those the read
  loop had before the message, except that a failing first message of its topic leaves
  the handler just constructed for it in the dictionary.
\<close>

theorem decode_failure_raises_without_mutation:
  "handle_msg ok h Undecodable t = Some (Inl (DecodeError, h)) \<and>
   handle_msgs ok h ((Undecodable, t) # rest) = Some (Inl (DecodeError, h)) \<and>
   (topics topic = Some IMAGE \<longrightarrow>
    read_records ok topics Map.empty pre = Some (Inr hs) \<longrightarrow>
      process_bag ok topics (pre @ (topic, ImagePayload Undecodable, t) # later) =
        Some (Inl (DecodeError,
          (case hs topic of
             None \<Rightarrow> hs(topic \<mapsto> ImageTopicHandler (new_handler TARGET_PERIOD_NS))
           | Some th \<Rightarrow> hs))))"
proof (intro conjI impI)
  show "handle_msg ok h Undecodable t = Some (Inl (DecodeError, h))"
    by (rule handle_msg_undecodable)
  then show "handle_msgs ok h ((Undecodable, t) # rest) = Some (Inl (DecodeError, h))"
    by simp
next
  assume ty: "topics topic = Some IMAGE"
    and rd: "read_records ok topics Map.empty pre = Some (Inr hs)"
  have inv: "image_typed topics hs"
    by (rule image_typed_read_records[OF rd image_typed_empty])
  have "read_records ok topics Map.empty (pre @ (topic, ImagePayload Undecodable, t) # later) =
          read_records ok topics hs ((topic, ImagePayload Undecodable, t) # later)"
    by (rule read_records_append[OF rd])
  also have "\<dots> = Some (Inl (DecodeError,
          (case hs topic of
             None \<Rightarrow> hs(topic \<mapsto> ImageTopicHandler (new_handler TARGET_PERIOD_NS))
           | Some th \<Rightarrow> hs)))"
    by (rule read_records_undecodable[OF ty inv])
  finally show "process_bag ok topics (pre @ (topic, ImagePayload Undecodable, t) # later) =
        Some (Inl (DecodeError,
          (case hs topic of
             None \<Rightarrow> hs(topic \<mapsto> ImageTopicHandler (new_handler TARGET_PERIOD_NS))
           | Some th \<Rightarrow> hs)))"
    by (simp only: process_bag_def option.case sum.case)
qed

text \<open>
  The amended C7 at a bag of the camera topic in which a frame at timestamp 5 has been
  ingested, the message at 9 does not decode, and a frame follows at 20: the handler
  ends as the first frame left it, and the third message has added no row.
\<close>

theorem decode_failure_raises_without_mutation_witness:
  "camera_topics ''/camera/image_raw'' = Some IMAGE \<and>
   read_records True camera_topics Map.empty
      [(''/camera/image_raw'', ImagePayload (Decodable \<lparr>height = 1, width = 1, pixels = [7]\<rparr>), 5)] =
     Some (Inr
       [''/camera/image_raw'' \<mapsto> ImageTopicHandler
          \<lparr>period_ns = 25000000,
           writer = Some \<lparr>frame_size = (1, 1), opened = True,
                          write_calls = [\<lparr>height = 1, width = 1, pixels = [7]\<rparr>],
                          releases = 0\<rparr>,
           frame_idx = 1, next_target_ts_ns = Some 25000005,
           last_frame_bgr = Some \<lparr>height = 1, width = 1, pixels = [7]\<rparr>,
           video_start_ts = Some 5, first_img_seen = True,
           last_source_ts_ns = Some 5,
           csv_rows = [\<lparr>frame_index = 0, video_timestamp_ns = 0,
                        source_timestamp_ns = Some 5, is_repeat = 0\<rparr>],
           csv_closes = 0\<rparr>]) \<and>
   process_bag True camera_topics
      [(''/camera/image_raw'', ImagePayload (Decodable \<lparr>height = 1, width = 1, pixels = [7]\<rparr>), 5),
       (''/camera/image_raw'', ImagePayload Undecodable, 9),
       (''/camera/image_raw'', ImagePayload (Decodable \<lparr>height = 1, width = 1, pixels = [9]\<rparr>), 20)] =
     Some (Inl (DecodeError,
       [''/camera/image_raw'' \<mapsto> ImageTopicHandler
          \<lparr>period_ns = 25000000,
           writer = Some \<lparr>frame_size = (1, 1), opened = True,
                          write_calls = [\<lparr>height = 1, width = 1, pixels = [7]\<rparr>],
                          releases = 0\<rparr>,
           frame_idx = 1, next_target_ts_ns = Some 25000005,
           last_frame_bgr = Some \<lparr>height = 1, width = 1, pixels = [7]\<rparr>,
           video_start_ts = Some 5, first_img_seen = True,
           last_source_ts_ns = Some 5,
           csv_rows = [\<lparr>frame_index = 0, video_timestamp_ns = 0,
                        source_timestamp_ns = Some 5, is_repeat = 0\<rparr>],
           csv_closes = 0\<rparr>]))"
proof -
  let ?f = "\<lparr>height = 1, width = 1, pixels = [7]\<rparr>"
  let ?g = "\<lparr>height = 1, width = 1, pixels = [9]\<rparr>"
  let ?h = "\<lparr>period_ns = 25000000,
           writer = Some \<lparr>frame_size = (1, 1), opened = True,
                          write_calls = [?f], releases = 0\<rparr>,
           frame_idx = 1, next_target_ts_ns = Some 25000005,
           last_frame_bgr = Some ?f,
           video_start_ts = Some 5, first_img_seen = True,
           last_source_ts_ns = Some 5,
           csv_rows = [\<lparr>frame_index = 0, video_timestamp_ns = 0,
                        source_timestamp_ns = Some 5, is_repeat = 0\<rparr>],
           csv_closes = 0\<rparr>"
  let ?hs = "[''/camera/image_raw'' \<mapsto> ImageTopicHandler ?h]"
  have ty: "camera_topics ''/camera/image_raw'' = Some IMAGE"
    by (simp add: camera_topics_def)
  have rd: "read_records True camera_topics Map.empty
      [(''/camera/image_raw'', ImagePayload (Decodable ?f), 5)] = Some (Inr ?hs)"
    by (simp add: bag_defs run_defs)
  have at: "?hs ''/camera/image_raw'' = Some (ImageTopicHandler ?h)" by simp
  from decode_failure_raises_without_mutation[where topics = camera_topics
      and topic = "''/camera/image_raw''" and ok = True and t = 9 and hs = ?hs
      and pre = "[(''/camera/image_raw'', ImagePayload (Decodable ?f), 5)]"
      and later = "[(''/camera/image_raw'', ImagePayload (Decodable ?g), 20)]"] ty rd
  have "process_bag True camera_topics
      ([(''/camera/image_raw'', ImagePayload (Decodable ?f), 5)] @
       (''/camera/image_raw'', ImagePayload Undecodable, 9) #
       [(''/camera/image_raw'', ImagePayload (Decodable ?g), 20)]) =
     Some (Inl (DecodeError,
       (case ?hs ''/camera/image_raw'' of
          None \<Rightarrow> ?hs(''/camera/image_raw'' \<mapsto> ImageTopicHandler (new_handler TARGET_PERIOD_NS))
        | Some th \<Rightarrow> ?hs)))"
    by blast
  then have "process_bag True camera_topics
      [(''/camera/image_raw'', ImagePayload (Decodable ?f), 5),
       (''/camera/image_raw'', ImagePayload Undecodable, 9),
       (''/camera/image_raw'', ImagePayload (Decodable ?g), 20)] =
     Some (Inl (DecodeError, ?hs))"
    by (simp only: at option.case append.simps)
  with ty rd show ?thesis by (simp only: simp_thms)
qed

text \<open>
  C8. The claim that the outputs are released on every exit path fails: when the second
  image message of a bag does not decode, \<open>process_bag\<close> ends with the decode error and
  the handler has neither closed its sidecar file nor released its writer.
\<close>

theorem outputs_not_released_on_error:
  "process_bag True camera_topics
      [(''/camera/image_raw'', ImagePayload (Decodable \<lparr>height = 1, width = 1, pixels = [7]\<rparr>), 5),
       (''/camera/image_raw'', ImagePayload Undecodable, 9)] =
     Some (Inl (DecodeError,
       [''/camera/image_raw'' \<mapsto> ImageTopicHandler
          \<lparr>period_ns = 25000000,
           writer = Some \<lparr>frame_size = (1, 1), opened = True,
                          write_calls = [\<lparr>height = 1, width = 1, pixels = [7]\<rparr>],
                          releases = 0\<rparr>,
           frame_idx = 1, next_target_ts_ns = Some 25000005,
           last_frame_bgr = Some \<lparr>height = 1, width = 1, pixels = [7]\<rparr>,
           video_start_ts = Some 5, first_img_seen = True,
           last_source_ts_ns = Some 5,
           csv_rows = [\<lparr>frame_index = 0, video_timestamp_ns = 0,
                        source_timestamp_ns = Some 5, is_repeat = 0\<rparr>],
           csv_closes = 0\<rparr>]))"
  by (simp add: bag_defs run_defs)

text \<open>
  C8, as the code has it: the closing loop stands after the read loop, outside any
  \<open>try\<close>. When \<open>process_bag\<close> returns, every image handler has closed its sidecar file
  once and released its writer once, if it has one. When an error leaves the read loop,
  the closing loop is not run: no image handler has closed its file or released its
  writer.
\<close>

theorem release_runs_on_normal_end_only:
  "(process_bag ok topics feed = Some (Inr hs) \<longrightarrow>
    hs topic = Some (ImageTopicHandler h) \<longrightarrow>
      csv_closes h = 1 \<and> map_option releases (writer h) = map_option (\<lambda>w. 1) (writer h)) \<and>
   (process_bag ok topics feed = Some (Inl (e, hs')) \<longrightarrow>
    hs' topic = Some (ImageTopicHandler h') \<longrightarrow>
      csv_closes h' = 0 \<and> map_option releases (writer h') = map_option (\<lambda>w. 0) (writer h'))"
proof (intro conjI impI)
  assume run: "process_bag ok topics feed = Some (Inr hs)"
    and at: "hs topic = Some (ImageTopicHandler h)"
  from run obtain hs0 where
    rd: "read_records ok topics Map.empty feed = Some (Inr hs0)"
    and hs: "hs = (\<lambda>k. map_option close_handler (hs0 k))"
    by (auto simp: process_bag_def split: option.splits sum.splits)
  from unreleased_read_records[OF rd all_unreleased_empty]
  have u: "all_unreleased hs0" by (simp only: final_handlers_simps)
  from at hs obtain th where th: "hs0 topic = Some th" "close_handler th = ImageTopicHandler h"
    by auto
  then obtain h0 where h0: "th = ImageTopicHandler h0" "h = close h0"
    by (cases th) (auto simp: close_handler_def)
  from u th(1) h0(1) have "unreleased h0" by (auto simp: all_unreleased_def)
  with h0(2) show "csv_closes h = 1"
    and "map_option releases (writer h) = map_option (\<lambda>w. 1) (writer h)"
    by (auto simp: unreleased_def close_def split: option.splits)
next
  assume run: "process_bag ok topics feed = Some (Inl (e, hs'))"
    and at: "hs' topic = Some (ImageTopicHandler h')"
  from run have rd: "read_records ok topics Map.empty feed = Some (Inl (e, hs'))"
    by (auto simp: process_bag_def split: option.splits sum.splits)
  from unreleased_read_records[OF rd all_unreleased_empty]
  have "all_unreleased hs'" by (simp only: final_handlers_simps)
  with at have "unreleased h'" by (auto simp: all_unreleased_def)
  then show "csv_closes h' = 0"
    and "map_option releases (writer h') = map_option (\<lambda>w. 0) (writer h')"
    by (auto simp: unreleased_def split: option.splits)
qed

text \<open>
  The amended C8 at two bags of the camera topic: one frame, and one frame followed by
  a message that does not decode.
\<close>

theorem release_runs_on_normal_end_only_witness:
  "process_bag True camera_topics
      [(''/camera/image_raw'', ImagePayload (Decodable \<lparr>height = 1, width = 1, pixels = [7]\<rparr>), 5)] =
     Some (Inr
       [''/camera/image_raw'' \<mapsto> ImageTopicHandler
          \<lparr>period_ns = 25000000,
           writer = Some \<lparr>frame_size = (1, 1), opened = True,
                          write_calls = [\<lparr>height = 1, width = 1, pixels = [7]\<rparr>],
                          releases = 1\<rparr>,
           frame_idx = 1, next_target_ts_ns = Some 25000005,
           last_frame_bgr = Some \<lparr>height = 1, width = 1, pixels = [7]\<rparr>,
           video_start_ts = Some 5, first_img_seen = True,
           last_source_ts_ns = Some 5,
           csv_rows = [\<lparr>frame_index = 0, video_timestamp_ns = 0,
                        source_timestamp_ns = Some 5, is_repeat = 0\<rparr>],
           csv_closes = 1\<rparr>]) \<and>
   process_bag True camera_topics
      [(''/camera/image_raw'', ImagePayload (Decodable \<lparr>height = 1, width = 1, pixels = [7]\<rparr>), 5),
       (''/camera/image_raw'', ImagePayload Undecodable, 9)] =
     Some (Inl (DecodeError,
       [''/camera/image_raw'' \<mapsto> ImageTopicHandler
          \<lparr>period_ns = 25000000,
           writer = Some \<lparr>frame_size = (1, 1), opened = True,
                          write_calls = [\<lparr>height = 1, width = 1, pixels = [7]\<rparr>],
                          releases = 0\<rparr>,
           frame_idx = 1, next_target_ts_ns = Some 25000005,
           last_frame_bgr = Some \<lparr>height = 1, width = 1, pixels = [7]\<rparr>,
           video_start_ts = Some 5, first_img_seen = True,
           last_source_ts_ns = Some 5,
           csv_rows = [\<lparr>frame_index = 0, video_timestamp_ns = 0,
                        source_timestamp_ns = Some 5, is_repeat = 0\<rparr>],
           csv_closes = 0\<rparr>]))"
proof -
  let ?f = "\<lparr>height = 1, width = 1, pixels = [7]\<rparr>"
  let ?h = "\<lambda>n. \<lparr>period_ns = 25000000,
           writer = Some \<lparr>frame_size = (1, 1), opened = True,
                          write_calls = [?f], releases = n\<rparr>,
           frame_idx = 1, next_target_ts_ns = Some 25000005,
           last_frame_bgr = Some ?f,
           video_start_ts = Some 5, first_img_seen = True,
           last_source_ts_ns = Some 5,
           csv_rows = [\<lparr>frame_index = 0, video_timestamp_ns = 0,
                        source_timestamp_ns = Some 5, is_repeat = 0\<rparr>],
           csv_closes = n\<rparr>"
  have good: "process_bag True camera_topics
      [(''/camera/image_raw'', ImagePayload (Decodable ?f), 5)] =
     Some (Inr [''/camera/image_raw'' \<mapsto> ImageTopicHandler (?h 1)])"
    by (simp add: bag_defs run_defs fun_eq_iff)
  have bad: "process_bag True camera_topics
      [(''/camera/image_raw'', ImagePayload (Decodable ?f), 5),
       (''/camera/image_raw'', ImagePayload Undecodable, 9)] =
     Some (Inl (DecodeError, [''/camera/image_raw'' \<mapsto> ImageTopicHandler (?h 0)]))"
    by (simp add: bag_defs run_defs)
  have at1: "[''/camera/image_raw'' \<mapsto> ImageTopicHandler (?h 1)] ''/camera/image_raw'' =
      Some (ImageTopicHandler (?h 1))" by simp
  have at0: "[''/camera/image_raw'' \<mapsto> ImageTopicHandler (?h 0)] ''/camera/image_raw'' =
      Some (ImageTopicHandler (?h 0))" by simp
  from release_runs_on_normal_end_only[where ok = True and topics = camera_topics
      and feed = "[(''/camera/image_raw'', ImagePayload (Decodable ?f), 5)]"
      and hs = "[''/camera/image_raw'' \<mapsto> ImageTopicHandler (?h 1)]"
      and topic = "''/camera/image_raw''" and h = "?h 1"] good at1
  have "csv_closes (?h 1) = 1" by blast
  with good bad show ?thesis by simp
qed

text \<open>
  C9. The claim that a frame of other dimensions than the first raises a fatal error
  fails: a 1 x 1 frame followed by a 2 x 2 frame is ingested without an error; the
  second frame goes to the writer, whose geometry stays 1 x 1, and gets its sidecar row.
\<close>

theorem other_dimensions_raise_nothing:
  "handle_msgs True (new_handler 100000000)
      [(Decodable \<lparr>height = 1, width = 1, pixels = [7]\<rparr>, 0),
       (Decodable \<lparr>height = 2, width = 2, pixels = [1, 2, 3, 4]\<rparr>, 10000000)] =
     Some (Inr \<lparr>period_ns = 100000000,
          writer = Some \<lparr>frame_size = (1, 1), opened = True,
                         write_calls = [\<lparr>height = 1, width = 1, pixels = [7]\<rparr>,
                                        \<lparr>height = 2, width = 2, pixels = [1, 2, 3, 4]\<rparr>],
                         releases = 0\<rparr>,
          frame_idx = 2, next_target_ts_ns = Some 200000000,
          last_frame_bgr = Some \<lparr>height = 2, width = 2, pixels = [1, 2, 3, 4]\<rparr>,
          video_start_ts = Some 0, first_img_seen = True,
          last_source_ts_ns = Some 10000000,
          csv_rows =
            [\<lparr>frame_index = 0, video_timestamp_ns = 0,
              source_timestamp_ns = Some 0, is_repeat = 0\<rparr>,
             \<lparr>frame_index = 1, video_timestamp_ns = 10000000,
              source_timestamp_ns = Some 10000000, is_repeat = 0\<rparr>],
          csv_closes = 0\<rparr>)"
  by (simp add: run_defs)

text \<open>
  C9, as the code has it: the handler never compares dimensions. The writer is created
  once, with the width and height of the first frame of the stream; with a positive
  period every later frame, of whatever dimensions, is ingested without an error, is
  the last frame passed to the writer, and gets the last sidecar row, a real one.
\<close>

theorem later_frames_written_whatever_their_size:
  assumes "0 < p"
    and "handle_msgs ok (new_handler p) ((Decodable f0, t0) # feed) = Some (Inr h)"
  shows "\<exists>h' w'. handle_msg ok h (Decodable f) t = Some (Inr h') \<and>
           writer h' = Some w' \<and> frame_size w' = (width f0, height f0) \<and>
           last (write_calls w') = f \<and>
           last (csv_rows h') =
             \<lparr>frame_index = frame_idx h' - 1, video_timestamp_ns = t - t0,
              source_timestamp_ns = Some t, is_repeat = 0\<rparr>"
proof -
  from reach_live[OF assms(2)] obtain w lf nxt t' f0' where
    lv: "live h w lf nxt t0 t'" and per: "period_ns h = p"
    and f0: "Decodable f0 = Decodable f0'" "frame_size w = (width f0', height f0')"
    by blast
  from lv have run: "running h w lf nxt t0" and seen: "first_img_seen h"
    unfolding live_def by blast+
  from assms(1) per have pos: "0 < period_ns h" by simp
  from handle_msg_running_total[OF run seen pos, of ok f t] obtain h' where
    h': "handle_msg ok h (Decodable f) t = Some (Inr h')" by blast
  from live_step[OF lv h'] obtain k w' where
    lv': "live h' w' f (nxt + (int k + 1) * period_ns h) t0 t"
    and fs: "frame_size w' = frame_size w"
    and wc: "write_calls w' = write_calls w @ replicate k lf @ [f]"
    by auto
  from lv' have "writer h' = Some w'"
    and "last (csv_rows h') = real_row (frame_idx h' - 1) t0 t"
    unfolding live_def running_def by blast+
  with h' fs wc f0 show ?thesis by (simp add: real_row_def)
qed

text \<open>The amended C9 at a 1 x 1 first frame and a 2 x 2 second frame.\<close>

theorem later_frames_written_whatever_their_size_witness:
  "(0::int) < 100000000 \<and>
   handle_msgs True (new_handler 100000000)
      [(Decodable \<lparr>height = 1, width = 1, pixels = [7]\<rparr>, 0)] =
     Some (Inr \<lparr>period_ns = 100000000,
          writer = Some \<lparr>frame_size = (1, 1), opened = True,
                         write_calls = [\<lparr>height = 1, width = 1, pixels = [7]\<rparr>],
                         releases = 0\<rparr>,
          frame_idx = 1, next_target_ts_ns = Some 100000000,
          last_frame_bgr = Some \<lparr>height = 1, width = 1, pixels = [7]\<rparr>,
          video_start_ts = Some 0, first_img_seen = True,
          last_source_ts_ns = Some 0,
          csv_rows =
            [\<lparr>frame_index = 0, video_timestamp_ns = 0,
              source_timestamp_ns = Some 0, is_repeat = 0\<rparr>],
          csv_closes = 0\<rparr>) \<and>
   (\<exists>h' w'. handle_msg True \<lparr>period_ns = 100000000,
          writer = Some \<lparr>frame_size = (1, 1), opened = True,
                         write_calls = [\<lparr>height = 1, width = 1, pixels = [7]\<rparr>],
                         releases = 0\<rparr>,
          frame_idx = 1, next_target_ts_ns = Some 100000000,
          last_frame_bgr = Some \<lparr>height = 1, width = 1, pixels = [7]\<rparr>,
          video_start_ts = Some 0, first_img_seen = True,
          last_source_ts_ns = Some 0,
          csv_rows =
            [\<lparr>frame_index = 0, video_timestamp_ns = 0,
              source_timestamp_ns = Some 0, is_repeat = 0\<rparr>],
          csv_closes = 0\<rparr>
          (Decodable \<lparr>height = 2, width = 2, pixels = [1, 2, 3, 4]\<rparr>) 10000000 = Some (Inr h') \<and>
      writer h' = Some w' \<and> frame_size w' = (1, 1) \<and>
      last (write_calls w') = \<lparr>height = 2, width = 2, pixels = [1, 2, 3, 4]\<rparr>)"
proof -
  let ?a = "\<lparr>height = 1, width = 1, pixels = [7]\<rparr>"
  let ?h = "\<lparr>period_ns = 100000000,
          writer = Some \<lparr>frame_size = (1, 1), opened = True,
                         write_calls = [?a], releases = 0\<rparr>,
          frame_idx = 1, next_target_ts_ns = Some 100000000,
          last_frame_bgr = Some ?a,
          video_start_ts = Some 0, first_img_seen = True,
          last_source_ts_ns = Some 0,
          csv_rows =
            [\<lparr>frame_index = 0, video_timestamp_ns = 0,
              source_timestamp_ns = Some 0, is_repeat = 0\<rparr>],
          csv_closes = 0\<rparr>"
  have pos: "(0::int) < 100000000" by simp
  have run: "handle_msgs True (new_handler 100000000) [(Decodable ?a, 0)] = Some (Inr ?h)"
    by (simp add: run_defs)
  from later_frames_written_whatever_their_size[OF pos run,
      of "\<lparr>height = 2, width = 2, pixels = [1, 2, 3, 4]\<rparr>" 10000000]
  obtain h' w' where
    "handle_msg True ?h (Decodable \<lparr>height = 2, width = 2, pixels = [1, 2, 3, 4]\<rparr>) 10000000 =
       Some (Inr h')"
    "writer h' = Some w'" "frame_size w' = (width ?a, height ?a)"
    "last (write_calls w') = \<lparr>height = 2, width = 2, pixels = [1, 2, 3, 4]\<rparr>"
    by blast
  then have "\<exists>h' w'. handle_msg True ?h
        (Decodable \<lparr>height = 2, width = 2, pixels = [1, 2, 3, 4]\<rparr>) 10000000 = Some (Inr h') \<and>
      writer h' = Some w' \<and> frame_size w' = (1, 1) \<and>
      last (write_calls w') = \<lparr>height = 2, width = 2, pixels = [1, 2, 3, 4]\<rparr>"
    by auto
  with pos run show ?thesis by blast
qed

end
